theory Spec2Isabelle
  imports Main "HOL-Library.Char_ord" "HOL-Library.List_Lexorder" "HOL-Library.Multiset"
begin

section \<open>Values, library parameters and the metrics map\<close>

text \<open>
  A scanned column, or a stored sample, is a Go \<open>interface{}\<close>. The constructors are the
  dynamic types that \<open>runQuery\<close> and the two handlers tell apart: \<open>nil\<close>, the integer
  and float types of the type switches, \<open>[]byte\<close>, and the remaining types a driver
  can deliver (\<open>string\<close>, \<open>bool\<close>, \<open>time.Time\<close>), which all take the \<open>default\<close>
  branches. The type \<open>'f\<close> stands for \<open>float64\<close>; a \<open>float32\<close> is kept as the
  \<open>float64\<close> it converts to.
\<close>

datatype 'f govalue =
    VNil
  | VInt int
  | VInt32 int
  | VInt64 int
  | VUint nat
  | VUint32 nat
  | VUint64 nat
  | VFloat32 'f
  | VFloat64 'f
  | VBytes string
  | VString string
  | VBool bool
  | VTime int

text \<open>
  The functions of Go's standard library that the program calls and whose code is not
  part of the repository are parameters of the model:
  \<open>float_of_int\<close> is the conversion \<open>float64(v)\<close> of an integer,
  \<open>parse_float\<close> is \<open>strconv.ParseFloat(s, 64)\<close> (\<open>None\<close> when it returns an error),
  \<open>fmt_g\<close> is the verb \<open>%g\<close> and \<open>sprint_v\<close> is \<open>fmt.Sprintf("%v", v)\<close>.
\<close>

record 'f goenv =
  float_of_int :: "int \<Rightarrow> 'f"
  parse_float :: "string \<Rightarrow> 'f option"
  fmt_g :: "'f \<Rightarrow> string"
  sprint_v :: "'f govalue \<Rightarrow> string"

type_synonym labels = "string \<rightharpoonup> string"

text \<open>
  An element of \<open>a.metrics\<close> (\<open>map[string]interface{}\<close>) is either the scanned value
  itself or the two-field map \<open>{"value": v, "labels": labels}\<close>.
\<close>

datatype 'f entry =
    Direct "'f govalue"
  | Labeled "'f govalue" labels

type_synonym 'f store = "string \<rightharpoonup> 'f entry"

record MetricConfig =
  Name :: string
  Query :: string
  Interval :: nat

text \<open>The lines that \<open>runQuery\<close> writes with \<open>log.Printf\<close>, by format string.\<close>

datatype log_msg =
    ErrorExecutingQuery string
  | ErrorGettingColumns string
  | ErrorNoValueColumn string
  | ErrorScanningRow string
  | ErrorIteratingRows string
  | UpdatedMetric string nat

text \<open>
  The state of \<open>App\<close> that the code under study reads and writes: the metrics map, and
  the log as the list of lines written so far. The mutex is not modelled: every
  function below is one critical section.
\<close>

record 'f App =
  metrics :: "'f store"
  logged :: "log_msg list"

definition logPrintf :: "log_msg \<Rightarrow> 'f App \<Rightarrow> 'f App" where
  "logPrintf msg a = a\<lparr>logged := logged a @ [msg]\<rparr>"

text \<open>
  What the database hands to one call of \<open>runQuery\<close>. \<open>db.Query\<close> either fails
  (\<open>None\<close> below) or returns a cursor; \<open>Columns\<close> is the result of \<open>rows.Columns()\<close>
  (\<open>None\<close> for its error), \<open>Rows\<close> lists, for every \<open>rows.Next()\<close> that returned
  true, what \<open>rows.Scan\<close> then met, and \<open>Err\<close> tells whether \<open>rows.Err()\<close> is
  non-nil once \<open>Next\<close> has returned false.
\<close>

datatype 'f row =
    ScanError
  | Row "'f govalue list"

record 'f sqlrows =
  Columns :: "string list option"
  Rows :: "'f row list"
  Err :: bool

section \<open>buildLabelsKey\<close>

text \<open>\<open>labels[k]\<close>: the zero value of \<open>string\<close> for a key that is absent.\<close>

definition lookupLabel :: "labels \<Rightarrow> string \<Rightarrow> string" where
  "lookupLabel labels k = (case labels k of None \<Rightarrow> [] | Some v \<Rightarrow> v)"

text \<open>The second loop of \<open>buildLabelsKey\<close>; \<open>i\<close> is the index of the first key.\<close>

fun writeKeys :: "labels \<Rightarrow> nat \<Rightarrow> string list \<Rightarrow> string" where
  "writeKeys labels i [] = []"
| "writeKeys labels i (k # keys) =
     (if i > 0 then ''_'' else []) @ k @ ''_'' @ lookupLabel labels k
       @ writeKeys labels (Suc i) keys"

text \<open>
  \<open>buildLabelsKey\<close>. A \<open>range\<close> over a Go map visits every key once, in an order
  the runtime chooses; that order is the argument \<open>ranged\<close>. The keys are
  appended in that order, sorted with \<open>sort.Strings\<close> (bytewise lexicographic, the
  order of \<open>string\<close> here) and written out.
\<close>

definition buildLabelsKey :: "string list \<Rightarrow> labels \<Rightarrow> string" where
  "buildLabelsKey ranged labels = (let keys = sort ranged in writeKeys labels 0 keys)"

text \<open>An enumeration of the keys of a map as \<open>range\<close> may produce it.\<close>

definition rangeOf :: "string list \<Rightarrow> (string \<rightharpoonup> 'v) \<Rightarrow> bool" where
  "rangeOf ks m = (distinct ks \<and> set ks = dom m)"

text \<open>
  Two notions used to state when keys are unambiguous: the strings that
  \<open>buildLabelsKey\<close> writes for the sorted keys (each key followed by its value), and
  their concatenation with \<open>_\<close> in between.
\<close>

definition keyParts :: "labels \<Rightarrow> string list \<Rightarrow> string list" where
  "keyParts labels keys = concat (map (\<lambda>k. [k, lookupLabel labels k]) keys)"

fun joinUnderscore :: "string list \<Rightarrow> string" where
  "joinUnderscore [] = []"
| "joinUnderscore [x] = x"
| "joinUnderscore (x # y # ys) = x @ ''_'' @ joinUnderscore (y # ys)"

section \<open>runQuery\<close>

text \<open>The search for the column \<open>value\<close>: the index of its first occurrence, or \<open>-1\<close>.\<close>

fun findValueIdx :: "string list \<Rightarrow> nat \<Rightarrow> int" where
  "findValueIdx [] i = - 1"
| "findValueIdx (col # columns) i =
     (if col = ''value'' then int i else findValueIdx columns (Suc i))"

text \<open>\<open>len(k) >= len(prefix) && k[:len(prefix)] == prefix\<close>\<close>

definition hasPrefix :: "string \<Rightarrow> string \<Rightarrow> bool" where
  "hasPrefix prefix k = (length k \<ge> length prefix \<and> take (length prefix) k = prefix)"

text \<open>The loop that deletes every key of the map with the prefix.\<close>

definition deletePrefixed :: "string \<Rightarrow> 'f store \<Rightarrow> 'f store" where
  "deletePrefixed prefix m = (\<lambda>k. if hasPrefix prefix k then None else m k)"

text \<open>The conversion of a scanned column to a label value.\<close>

definition labelValue :: "'f goenv \<Rightarrow> 'f govalue \<Rightarrow> string" where
  "labelValue env v =
     (if v = VNil then ''null''
      else (case v of VBytes b \<Rightarrow> b | _ \<Rightarrow> sprint_v env v))"

text \<open>The loop over the columns of one scanned row, from index \<open>i\<close> on.\<close>

fun createLabels ::
  "'f goenv \<Rightarrow> nat \<Rightarrow> 'f govalue list \<Rightarrow> nat \<Rightarrow> string list \<Rightarrow> labels \<Rightarrow> labels" where
  "createLabels env valueIdx values i [] labels = labels"
| "createLabels env valueIdx values i (col # columns) labels =
     (if i = valueIdx then createLabels env valueIdx values (Suc i) columns labels
      else createLabels env valueIdx values (Suc i) columns
             (labels(col \<mapsto> labelValue env (values ! i))))"

text \<open>
  \<open>rows.Scan(valuePtrs...)\<close> on a fetched row. \<open>database/sql\<close> refuses a row whose
  number of values differs from the number of destinations, which is the number of
  columns.
\<close>

definition scan :: "string list \<Rightarrow> 'f row \<Rightarrow> 'f govalue list option" where
  "scan columns r =
     (case r of
        ScanError \<Rightarrow> None
      | Row values \<Rightarrow> if length values = length columns then Some values else None)"

text \<open>
  The body of the row loop after a successful scan. The key of a labelled row is
  built from one enumeration of the label map; the result does not depend on which
  one (see the section on \<open>buildLabelsKey\<close> below).
\<close>

definition storeRow ::
  "'f goenv \<Rightarrow> MetricConfig \<Rightarrow> string \<Rightarrow> string list \<Rightarrow> nat \<Rightarrow> 'f govalue list
     \<Rightarrow> 'f store \<Rightarrow> 'f store" where
  "storeRow env metric prefix columns valueIdx values m =
     (let labels = createLabels env valueIdx values 0 columns Map.empty in
      if labels \<noteq> Map.empty then
        (let metricKeyName = prefix @ buildLabelsKey (sorted_list_of_set (dom labels)) labels
         in m(metricKeyName \<mapsto> Labeled (values ! valueIdx) labels))
      else m(Name metric \<mapsto> Direct (values ! valueIdx)))"

fun rowLoop ::
  "'f goenv \<Rightarrow> MetricConfig \<Rightarrow> string \<Rightarrow> string list \<Rightarrow> nat \<Rightarrow> 'f row list
     \<Rightarrow> 'f App \<Rightarrow> 'f App" where
  "rowLoop env metric prefix columns valueIdx [] a = a"
| "rowLoop env metric prefix columns valueIdx (r # rs) a =
     (case scan columns r of
        None \<Rightarrow>
          rowLoop env metric prefix columns valueIdx rs
            (logPrintf (ErrorScanningRow (Name metric)) a)
      | Some values \<Rightarrow>
          rowLoop env metric prefix columns valueIdx rs
            (a\<lparr>metrics := storeRow env metric prefix columns valueIdx values (metrics a)\<rparr>))"

definition runQuery ::
  "'f goenv \<Rightarrow> MetricConfig \<Rightarrow> 'f sqlrows option \<Rightarrow> 'f App \<Rightarrow> 'f App" where
  "runQuery env metric queried a =
     (case queried of
        None \<Rightarrow> logPrintf (ErrorExecutingQuery (Name metric)) a
      | Some rows \<Rightarrow>
          (case Columns rows of
             None \<Rightarrow> logPrintf (ErrorGettingColumns (Name metric)) a
           | Some columns \<Rightarrow>
               (let valueIdx = findValueIdx columns 0 in
                if valueIdx = - 1 then logPrintf (ErrorNoValueColumn (Name metric)) a
                else
                  (let prefix = Name metric @ ''_'';
                       a1 = a\<lparr>metrics := deletePrefixed prefix (metrics a)\<rparr>;
                       a2 = rowLoop env metric prefix columns (nat valueIdx) (Rows rows) a1;
                       a3 = (if Err rows then logPrintf (ErrorIteratingRows (Name metric)) a2
                             else a2)
                   in logPrintf (UpdatedMetric (Name metric) 1) a3))))"

text \<open>
  Three notions used to state what a poll leaves in the map: the labels, the key and the
  entry that the body of the row loop computes for a scanned row, with the value column
  at \<open>valueIdx\<close>.
\<close>

definition rowLabels :: "'f goenv \<Rightarrow> string list \<Rightarrow> nat \<Rightarrow> 'f govalue list \<Rightarrow> labels" where
  "rowLabels env columns valueIdx values = createLabels env valueIdx values 0 columns Map.empty"

definition rowKey ::
  "'f goenv \<Rightarrow> MetricConfig \<Rightarrow> string list \<Rightarrow> nat \<Rightarrow> 'f govalue list \<Rightarrow> string" where
  "rowKey env metric columns valueIdx values =
     (let labels = rowLabels env columns valueIdx values in
      if labels \<noteq> Map.empty
      then (Name metric @ ''_'') @ buildLabelsKey (sorted_list_of_set (dom labels)) labels
      else Name metric)"

definition rowEntry :: "'f goenv \<Rightarrow> string list \<Rightarrow> nat \<Rightarrow> 'f govalue list \<Rightarrow> 'f entry" where
  "rowEntry env columns valueIdx values =
     (let labels = rowLabels env columns valueIdx values in
      if labels \<noteq> Map.empty then Labeled (values ! valueIdx) labels
      else Direct (values ! valueIdx))"

section \<open>The Prometheus handler\<close>

text \<open>\<open>strings.Index(name, "_")\<close>: the index of the first occurrence from \<open>i\<close> on, or \<open>-1\<close>.\<close>

fun indexByte :: "char \<Rightarrow> string \<Rightarrow> nat \<Rightarrow> int" where
  "indexByte c [] i = - 1"
| "indexByte c (x # xs) i = (if x = c then int i else indexByte c xs (Suc i))"

text \<open>The base name that both handlers compute from a key of the map.\<close>

definition baseNameOf :: "string \<Rightarrow> string" where
  "baseNameOf name =
     (let idx = indexByte (CHR ''_'') name 0 in
      if idx > 0 then take (nat idx) name else name)"

text \<open>
  The type switch on the stored value, which \<open>handleMetrics\<close> writes out twice with
  the same cases: \<open>None\<close> is the \<open>continue\<close> of a value that is not numeric.
\<close>

definition toFloat64 :: "'f goenv \<Rightarrow> 'f govalue \<Rightarrow> 'f option" where
  "toFloat64 env v =
     (case v of
        VInt i \<Rightarrow> Some (float_of_int env i)
      | VInt32 i \<Rightarrow> Some (float_of_int env i)
      | VInt64 i \<Rightarrow> Some (float_of_int env i)
      | VUint n \<Rightarrow> Some (float_of_int env (int n))
      | VUint32 n \<Rightarrow> Some (float_of_int env (int n))
      | VUint64 n \<Rightarrow> Some (float_of_int env (int n))
      | VFloat32 f \<Rightarrow> Some f
      | VFloat64 f \<Rightarrow> Some f
      | VBytes b \<Rightarrow> parse_float env b
      | _ \<Rightarrow> None)"

text \<open>
  \<open>escapeLabelValue\<close>: the replacer has three one-byte patterns, so it rewrites the
  value byte by byte (backslash is byte \<open>0x5C\<close>, newline \<open>0x0A\<close>, the double quote
  \<open>0x22\<close>).
\<close>

definition escapeByte :: "char \<Rightarrow> string" where
  "escapeByte c =
     (if c = CHR 0x5C then [CHR 0x5C, CHR 0x5C]
      else if c = CHR 0x0A then [CHR 0x5C, CHR ''n'']
      else if c = CHR 0x22 then [CHR 0x5C, CHR 0x22]
      else [c])"

definition escapeLabelValue :: "string \<Rightarrow> string" where
  "escapeLabelValue v = concat (map escapeByte v)"

text \<open>The loop that fills \<open>labelStr\<close>, over the keys in the order of the \<open>range\<close>.\<close>

fun writeLabelPairs :: "bool \<Rightarrow> labels \<Rightarrow> string list \<Rightarrow> string" where
  "writeLabelPairs first labels [] = []"
| "writeLabelPairs first labels (k # ks) =
     (if \<not> first then '','' else []) @ k @ [CHR ''='', CHR 0x22]
       @ escapeLabelValue (lookupLabel labels k) @ [CHR 0x22]
       @ writeLabelPairs False labels ks"

text \<open>
  One iteration of the loop of \<open>handleMetrics\<close>: what is written to the response for
  the key \<open>name\<close> holding \<open>v\<close>. \<open>lranged\<close> is the order in which the \<open>range\<close>
  over the entry's labels visits them. The lines written to the log for skipped
  values are left out.
\<close>

definition writeMetric :: "'f goenv \<Rightarrow> string list \<Rightarrow> string \<Rightarrow> 'f entry \<Rightarrow> string" where
  "writeMetric env lranged name v =
     (let (converted, labels) =
            (case v of
               Labeled rawValue rawLabels \<Rightarrow> (toFloat64 env rawValue, rawLabels)
             | Direct d \<Rightarrow> (toFloat64 env d, Map.empty))
      in case converted of
           None \<Rightarrow> []
         | Some floatValue \<Rightarrow>
             (let baseName = baseNameOf name in
              ''# HELP '' @ baseName @ '' Value from custom SQL query'' @ [CHR 0x0A]
              @ ''# TYPE '' @ baseName @ '' gauge'' @ [CHR 0x0A]
              @ (if labels \<noteq> Map.empty then
                   baseName @ (''{'' @ writeLabelPairs True labels lranged @ ''}'')
                     @ '' '' @ fmt_g env floatValue @ [CHR 0x0A]
                 else baseName @ '' '' @ fmt_g env floatValue @ [CHR 0x0A])))"

text \<open>
  \<open>handleMetrics\<close>: the body of the response. \<open>ranged\<close> is the order in which the
  \<open>range\<close> over \<open>a.metrics\<close> visits the keys, and \<open>lranged name\<close> the order of
  the inner \<open>range\<close> over the labels of the entry under \<open>name\<close>. Each iteration
  appends what \<open>writeMetric\<close> writes; \<open>metricBlocks\<close> keeps the iterations apart.
\<close>

definition metricBlocks ::
  "'f goenv \<Rightarrow> (string \<Rightarrow> string list) \<Rightarrow> string list \<Rightarrow> 'f App \<Rightarrow> string list" where
  "metricBlocks env lranged ranged a =
     map (\<lambda>name. case metrics a name of
                    None \<Rightarrow> []
                  | Some v \<Rightarrow> writeMetric env (lranged name) name v) ranged"

definition handleMetrics ::
  "'f goenv \<Rightarrow> (string \<Rightarrow> string list) \<Rightarrow> string list \<Rightarrow> 'f App \<Rightarrow> string" where
  "handleMetrics env lranged ranged a = concat (metricBlocks env lranged ranged a)"

section \<open>The JSON handler\<close>

text \<open>
  The value \<open>response\<close> that \<open>handleMetricsJSON\<close> builds: under each key either a
  stored value or a slice of \<open>{"value", "labels"}\<close> objects. \<open>json.Encoder\<close>
  writes the keys of a map in sorted order, so the body is a function of this value.
\<close>

datatype 'f jsonval =
    JDirect "'f govalue"
  | JGroup "('f govalue \<times> labels) list"

type_synonym 'f response = "string \<rightharpoonup> 'f jsonval"

definition addToResponse :: "'f store \<Rightarrow> string \<Rightarrow> 'f response \<Rightarrow> 'f response" where
  "addToResponse m name response =
     (case m name of
        None \<Rightarrow> response
      | Some (Labeled v labels) \<Rightarrow>
          (let baseName = baseNameOf name;
               existing = (case response baseName of
                             Some (JGroup existingMetrics) \<Rightarrow> existingMetrics
                           | _ \<Rightarrow> [])
           in response(baseName \<mapsto> JGroup (existing @ [(v, labels)])))
      | Some (Direct d) \<Rightarrow> response(name \<mapsto> JDirect d))"

definition handleMetricsJSON :: "string list \<Rightarrow> 'f App \<Rightarrow> 'f response" where
  "handleMetricsJSON ranged a = fold (addToResponse (metrics a)) ranged Map.empty"

text \<open>
  Two notions used to state what the JSON handler guarantees. \<open>groupOf m ks k\<close>
  lists, in the order \<open>ks\<close>, the labelled entries of the map whose key has the base
  name \<open>k\<close>. \<open>sameSeries\<close> relates two values of a response key that are equal up
  to the order of the series in a slice.
\<close>

definition seriesOf :: "'f store \<Rightarrow> string \<Rightarrow> string \<Rightarrow> ('f govalue \<times> labels) list" where
  "seriesOf m k name =
     (case m name of
        Some (Labeled v l) \<Rightarrow> if baseNameOf name = k then [(v, l)] else []
      | _ \<Rightarrow> [])"

definition groupOf :: "'f store \<Rightarrow> string list \<Rightarrow> string \<Rightarrow> ('f govalue \<times> labels) list" where
  "groupOf m ks k = concat (map (seriesOf m k) ks)"

definition sameSeries :: "'f jsonval option \<Rightarrow> 'f jsonval option \<Rightarrow> bool" where
  "sameSeries x y =
     (case x of
        None \<Rightarrow> y = None
      | Some (JDirect d) \<Rightarrow> y = Some (JDirect d)
      | Some (JGroup g) \<Rightarrow> (case y of Some (JGroup g') \<Rightarrow> mset g = mset g' | _ \<Rightarrow> False))"

section \<open>An instance of the library parameters\<close>

text \<open>
  For evaluation on concrete inputs: \<open>float64\<close> restricted to integers, with \<open>%g\<close>
  and \<open>%v\<close> printing an integer in decimal, as Go does for integers of magnitude
  below \<open>10^6\<close>. No byte string parses as a number in this instance, so it is used
  on integer samples only.
\<close>

fun showNat :: "nat \<Rightarrow> string" where
  "showNat n =
     (if n < 10 then [''0123456789'' ! n]
      else showNat (n div 10) @ [''0123456789'' ! (n mod 10)])"

definition showInt :: "int \<Rightarrow> string" where
  "showInt i = (if i < 0 then ''-'' @ showNat (nat (- i)) else showNat (nat i))"

definition decimalEnv :: "int goenv" where
  "decimalEnv =
     \<lparr>float_of_int = (\<lambda>i. i),
      parse_float = (\<lambda>s. None),
      fmt_g = showInt,
      sprint_v = (\<lambda>v. case v of
                         VInt i \<Rightarrow> showInt i
                       | VInt32 i \<Rightarrow> showInt i
                       | VInt64 i \<Rightarrow> showInt i
                       | VUint n \<Rightarrow> showNat n
                       | VUint32 n \<Rightarrow> showNat n
                       | VUint64 n \<Rightarrow> showNat n
                       | VString s \<Rightarrow> s
                       | VBool b \<Rightarrow> (if b then ''true'' else ''false'')
                       | _ \<Rightarrow> [])\<rparr>"

section \<open>Facts about \<open>runQuery\<close>\<close>

lemma findValueIdx_absent: "''value'' \<notin> set columns \<Longrightarrow> findValueIdx columns i = - 1"
  by (induction columns arbitrary: i) auto

lemma findValueIdx_present: "''value'' \<in> set columns \<Longrightarrow> 0 \<le> findValueIdx columns i"
  by (induction columns arbitrary: i) auto

lemma metrics_rowLoop:
  "metrics (rowLoop env metric prefix columns vi rs a) =
     fold (\<lambda>r m. case scan columns r of
                    None \<Rightarrow> m
                  | Some values \<Rightarrow> storeRow env metric prefix columns vi values m)
       rs (metrics a)"
  by (induction rs arbitrary: a) (simp_all add: logPrintf_def split: option.splits)

text \<open>The map after a poll whose query and \<open>Columns\<close> call succeeded.\<close>

lemma metrics_runQuery:
  "metrics (runQuery env metric (Some \<lparr>Columns = Some columns, Rows = rs, Err = e\<rparr>) a) =
     (if findValueIdx columns 0 = - 1 then metrics a
      else fold (\<lambda>r m. case scan columns r of
                         None \<Rightarrow> m
                       | Some values \<Rightarrow>
                           storeRow env metric (Name metric @ ''_'') columns
                             (nat (findValueIdx columns 0)) values m)
             rs (deletePrefixed (Name metric @ ''_'') (metrics a)))"
  by (simp add: runQuery_def Let_def logPrintf_def metrics_rowLoop)

lemma metrics_runQuery_no_columns:
  "metrics (runQuery env metric (Some \<lparr>Columns = None, Rows = rs, Err = e\<rparr>) a) = metrics a"
  by (simp add: runQuery_def logPrintf_def)

lemma metrics_runQuery_query_failed: "metrics (runQuery env metric None a) = metrics a"
  by (simp add: runQuery_def logPrintf_def)

text \<open>The prefix of a metric never matches the metric's own name.\<close>

lemma hasPrefix_own_name: "\<not> hasPrefix (n @ ''_'') n"
  by (simp add: hasPrefix_def)

lemma deletePrefixed_other: "\<not> hasPrefix prefix k \<Longrightarrow> deletePrefixed prefix m k = m k"
  by (simp add: deletePrefixed_def)

lemma deletePrefixed_hit: "hasPrefix prefix k \<Longrightarrow> deletePrefixed prefix m k = None"
  by (simp add: deletePrefixed_def)

text \<open>
  C1. A successful poll of \<open>M\<close> should remove the series of family \<open>M\<close> and leave
  every other family alone. The deletion goes by the string prefix \<open>M_\<close> of the key,
  so a poll of \<open>users\<close> (one row, value 225) deletes the series
  \<open>users_by_status{status="active"}\<close> that the metric \<open>users_by_status\<close> stored.
\<close>

theorem runQuery_deletes_other_family:
  "metrics (runQuery env \<lparr>Name = ''users'', Query = ''SELECT COUNT(*) AS value FROM users'',
                           Interval = 60\<rparr>
       (Some \<lparr>Columns = Some [''value''], Rows = [Row [VInt64 225]], Err = False\<rparr>)
       \<lparr>metrics = [''users_by_status_status_active'' \<mapsto>
                     Labeled (VInt64 150) [''status'' \<mapsto> ''active'']],
        logged = []\<rparr>)
   = [''users'' \<mapsto> Direct (VInt64 225)]"
  by (simp add: metrics_runQuery deletePrefixed_def hasPrefix_def scan_def storeRow_def
      fun_eq_iff)

text \<open>
  C2. A poll that succeeds with zero rows should leave no series of the family. The
  unlabelled series is stored under the bare name, which the prefix \<open>M_\<close> does not
  match: after \<open>active_users\<close> held 42, a poll with the column \<open>value\<close> and no
  row leaves the 42 in the map.
\<close>

theorem runQuery_zero_rows_keeps_unlabelled:
  "metrics (runQuery env \<lparr>Name = ''active_users'', Query = ''SELECT n AS value FROM t'',
                           Interval = 60\<rparr>
       (Some \<lparr>Columns = Some [''value''], Rows = [], Err = False\<rparr>)
       \<lparr>metrics = [''active_users'' \<mapsto> Direct (VInt64 42)], logged = []\<rparr>)
   = [''active_users'' \<mapsto> Direct (VInt64 42)]"
  by (simp add: metrics_runQuery deletePrefixed_def hasPrefix_def fun_eq_iff)

text \<open>
  The same for every metric and every map: a poll with zero rows keeps whatever is
  stored under the metric's own name, and clears the keys with the prefix.
\<close>

lemma poll_without_rows:
  assumes "''value'' \<in> set columns"
  shows "metrics (runQuery env metric (Some \<lparr>Columns = Some columns, Rows = [], Err = e\<rparr>) a)
           = deletePrefixed (Name metric @ ''_'') (metrics a)"
    and "metrics (runQuery env metric (Some \<lparr>Columns = Some columns, Rows = [], Err = e\<rparr>) a)
           (Name metric) = metrics a (Name metric)"
proof -
  have "findValueIdx columns 0 \<noteq> - 1"
    using findValueIdx_present[OF assms, of 0] by simp
  then show "metrics (runQuery env metric
                 (Some \<lparr>Columns = Some columns, Rows = [], Err = e\<rparr>) a)
               = deletePrefixed (Name metric @ ''_'') (metrics a)"
    by (simp add: metrics_runQuery)
  then show "metrics (runQuery env metric
                 (Some \<lparr>Columns = Some columns, Rows = [], Err = e\<rparr>) a) (Name metric)
               = metrics a (Name metric)"
    by (simp add: deletePrefixed_other hasPrefix_own_name)
qed

text \<open>
  What a poll of \<open>M\<close> cannot touch: a key that is neither \<open>M\<close> nor prefixed by
  \<open>M_\<close> keeps its entry, whatever the database returns.
\<close>

lemma hasPrefix_append: "hasPrefix prefix (prefix @ s)"
  by (simp add: hasPrefix_def)

lemma storeRow_other:
  assumes "k \<noteq> Name metric" and "\<not> hasPrefix prefix k"
  shows "storeRow env metric prefix columns vi values m k = m k"
proof -
  have "k \<noteq> prefix @ s" for s using assms(2) hasPrefix_append by metis
  then show ?thesis using assms(1) by (simp add: storeRow_def Let_def)
qed

lemma fold_storeRow_other:
  assumes "k \<noteq> Name metric" and "\<not> hasPrefix prefix k"
  shows "fold (\<lambda>r m. case scan columns r of
                       None \<Rightarrow> m
                     | Some values \<Rightarrow> storeRow env metric prefix columns vi values m)
           rs m k = m k"
  using assms by (induction rs arbitrary: m) (simp_all add: storeRow_other split: option.splits)

lemma runQuery_other_keys:
  assumes "k \<noteq> Name metric" and "\<not> hasPrefix (Name metric @ ''_'') k"
  shows "metrics (runQuery env metric queried a) k = metrics a k"
proof (cases queried)
  case None
  then show ?thesis by (simp add: metrics_runQuery_query_failed)
next
  case (Some rows)
  obtain cs rs e where rows: "rows = \<lparr>Columns = cs, Rows = rs, Err = e\<rparr>"
    by (cases rows) simp
  show ?thesis
  proof (cases cs)
    case None
    then show ?thesis using Some rows by (simp add: metrics_runQuery_no_columns)
  next
    case (Some columns)
    then show ?thesis using \<open>queried = Some rows\<close> rows assms
      by (simp add: metrics_runQuery fold_storeRow_other deletePrefixed_other)
  qed
qed

text \<open>
  C3. When the query and \<open>Columns\<close> succeed and no column is named exactly
  \<open>value\<close>, the poll logs the missing column and returns: the map is the one before
  the poll, for this family and for every other.
\<close>

theorem runQuery_no_value_column:
  assumes "''value'' \<notin> set columns"
  shows "runQuery env metric (Some \<lparr>Columns = Some columns, Rows = rs, Err = e\<rparr>) a
           = a\<lparr>logged := logged a @ [ErrorNoValueColumn (Name metric)]\<rparr>
         \<and> metrics (runQuery env metric
                      (Some \<lparr>Columns = Some columns, Rows = rs, Err = e\<rparr>) a) = metrics a"
  using assms by (simp add: runQuery_def findValueIdx_absent logPrintf_def)

theorem runQuery_no_value_column_witness:
  "''value'' \<notin> set [''Value'', ''status'']
   \<and> runQuery decimalEnv \<lparr>Name = ''m'', Query = ''q'', Interval = 60\<rparr>
        (Some \<lparr>Columns = Some [''Value'', ''status''],
               Rows = [Row [VInt64 1, VBytes ''active'']], Err = False\<rparr>)
        \<lparr>metrics = [''m_status_idle'' \<mapsto> Labeled (VInt64 5) [''status'' \<mapsto> ''idle'']],
         logged = []\<rparr>
     = \<lparr>metrics = [''m_status_idle'' \<mapsto> Labeled (VInt64 5) [''status'' \<mapsto> ''idle'']],
        logged = [ErrorNoValueColumn ''m'']\<rparr>"
  using runQuery_no_value_column [of "[''Value'', ''status'']" decimalEnv
      "\<lparr>Name = ''m'', Query = ''q'', Interval = 60\<rparr>"
      "[Row [VInt64 1, VBytes ''active'']]" False
      "\<lparr>metrics = [''m_status_idle'' \<mapsto> Labeled (VInt64 5) [''status'' \<mapsto> ''idle'']],
        logged = []\<rparr>"]
  by simp

text \<open>What the body of the row loop writes, and what later rows leave alone.\<close>

lemma storeRow_rowKey:
  "storeRow env metric (Name metric @ ''_'') columns vi values m
     = m(rowKey env metric columns vi values \<mapsto> rowEntry env columns vi values)"
  by (simp add: storeRow_def rowKey_def rowEntry_def rowLabels_def Let_def)

lemma fold_storeRow_keeps:
  assumes "\<forall>values'. Row values' \<in> set rs \<and> length values' = length columns
             \<longrightarrow> rowKey env metric columns vi values' \<noteq> k"
  shows "fold (\<lambda>r m. case scan columns r of
                       None \<Rightarrow> m
                     | Some values \<Rightarrow>
                         storeRow env metric (Name metric @ ''_'') columns vi values m)
           rs m k = m k"
  using assms
proof (induction rs arbitrary: m)
  case Nil
  then show ?case by simp
next
  case (Cons r rs)
  have tl: "\<forall>values'. Row values' \<in> set rs \<and> length values' = length columns
             \<longrightarrow> rowKey env metric columns vi values' \<noteq> k"
    using Cons.prems by simp
  have hd: "(case scan columns r of
               None \<Rightarrow> m
             | Some values \<Rightarrow>
                 storeRow env metric (Name metric @ ''_'') columns vi values m) k = m k"
  proof (cases r)
    case ScanError
    then show ?thesis by (simp add: scan_def)
  next
    case (Row vs)
    show ?thesis
    proof (cases "length vs = length columns")
      case True
      then have "rowKey env metric columns vi vs \<noteq> k" using Cons.prems Row by simp
      then show ?thesis using Row True by (simp add: scan_def storeRow_rowKey)
    next
      case False
      then show ?thesis using Row by (simp add: scan_def)
    qed
  qed
  show ?case using Cons.IH[OF tl] hd by simp
qed

lemma last_such_index:
  assumes "j < (n::nat)" and "P j"
  shows "\<exists>j'. j \<le> j' \<and> j' < n \<and> P j' \<and> (\<forall>j''. j' < j'' \<and> j'' < n \<longrightarrow> \<not> P j'')"
proof -
  let ?S = "{i. i < n \<and> P i}"
  have fin: "finite ?S" by simp
  have mem: "j \<in> ?S" using assms by simp
  then have ne: "?S \<noteq> {}" by blast
  have "Max ?S \<in> ?S" using fin ne by (rule Max_in)
  moreover have "j \<le> Max ?S" using fin mem by (rule Max_ge)
  moreover have "\<not> P j''" if "Max ?S < j''" "j'' < n" for j''
  proof
    assume "P j''"
    then have "j'' \<in> ?S" using that by simp
    then have "j'' \<le> Max ?S" using fin by (simp add: Max_ge)
    then show False using that by simp
  qed
  ultimately show ?thesis by blast
qed

text \<open>A row that scans and that no later row overwrites is in the map after the poll.\<close>

lemma row_stored_after_poll:
  assumes "''value'' \<in> set columns" and "length values = length columns"
    and "\<forall>values'. Row values' \<in> set rs2 \<and> length values' = length columns
           \<longrightarrow> rowKey env metric columns (nat (findValueIdx columns 0)) values'
                 \<noteq> rowKey env metric columns (nat (findValueIdx columns 0)) values"
  shows "metrics (runQuery env metric
                    (Some \<lparr>Columns = Some columns, Rows = rs1 @ Row values # rs2, Err = e\<rparr>) a)
           (rowKey env metric columns (nat (findValueIdx columns 0)) values)
           = Some (rowEntry env columns (nat (findValueIdx columns 0)) values)"
proof -
  let ?vi = "nat (findValueIdx columns 0)"
  let ?step = "\<lambda>r m. case scan columns r of
                         None \<Rightarrow> m
                       | Some v \<Rightarrow> storeRow env metric (Name metric @ ''_'') columns ?vi v m"
  let ?k = "rowKey env metric columns ?vi values"
  have idx: "findValueIdx columns 0 \<noteq> - 1"
    using findValueIdx_present[OF assms(1), of 0] by simp
  have sc: "scan columns (Row values) = Some values" using assms(2) by (simp add: scan_def)
  have "metrics (runQuery env metric
                  (Some \<lparr>Columns = Some columns, Rows = rs1 @ Row values # rs2, Err = e\<rparr>) a) ?k
          = fold ?step rs2
              (storeRow env metric (Name metric @ ''_'') columns ?vi values
                 (fold ?step rs1 (deletePrefixed (Name metric @ ''_'') (metrics a)))) ?k"
    using idx sc by (simp add: metrics_runQuery)
  also have "\<dots> = (storeRow env metric (Name metric @ ''_'') columns ?vi values
                 (fold ?step rs1 (deletePrefixed (Name metric @ ''_'') (metrics a)))) ?k"
    using assms(3) by (rule fold_storeRow_keeps)
  also have "\<dots> = Some (rowEntry env columns ?vi values)"
    by (simp add: storeRow_rowKey)
  finally show ?thesis .
qed

text \<open>
  C8. After a poll whose result has the column \<open>value\<close>, every row that scanned is in
  the map: its key holds the entry of the last row that scanned with that key (its own
  entry when no later row has the key), whatever rows before or after it failed to
  scan and whether or not \<open>rows.Err()\<close> reports an error at the end. A row whose scan
  fails is skipped: the map is as if the row were not there; and an error of
  \<open>rows.Err()\<close> leaves the map as it is without the error.
\<close>

theorem runQuery_row_and_cursor_errors:
  assumes "''value'' \<in> set columns" and "i < length rs" and "rs ! i = Row values"
    and "length values = length columns"
  shows "(\<exists>j values'. i \<le> j \<and> j < length rs \<and> rs ! j = Row values'
            \<and> length values' = length columns
            \<and> rowKey env metric columns (nat (findValueIdx columns 0)) values'
                = rowKey env metric columns (nat (findValueIdx columns 0)) values
            \<and> metrics (runQuery env metric
                          (Some \<lparr>Columns = Some columns, Rows = rs, Err = e\<rparr>) a)
                 (rowKey env metric columns (nat (findValueIdx columns 0)) values)
                = Some (rowEntry env columns (nat (findValueIdx columns 0)) values'))
         \<and> ((\<forall>j values'. i < j \<and> j < length rs \<and> rs ! j = Row values'
                  \<and> length values' = length columns
                \<longrightarrow> rowKey env metric columns (nat (findValueIdx columns 0)) values'
                      \<noteq> rowKey env metric columns (nat (findValueIdx columns 0)) values)
              \<longrightarrow> metrics (runQuery env metric
                            (Some \<lparr>Columns = Some columns, Rows = rs, Err = e\<rparr>) a)
                    (rowKey env metric columns (nat (findValueIdx columns 0)) values)
                  = Some (rowEntry env columns (nat (findValueIdx columns 0)) values))
         \<and> metrics (runQuery env metric
                      (Some \<lparr>Columns = cs, Rows = rsa @ ScanError # rsb, Err = e'\<rparr>) a')
           = metrics (runQuery env metric
                        (Some \<lparr>Columns = cs, Rows = rsa @ rsb, Err = e'\<rparr>) a')
         \<and> metrics (runQuery env metric (Some \<lparr>Columns = cs, Rows = rsa, Err = True\<rparr>) a')
           = metrics (runQuery env metric (Some \<lparr>Columns = cs, Rows = rsa, Err = False\<rparr>) a')"
proof -
  let ?vi = "nat (findValueIdx columns 0)"
  let ?key = "rowKey env metric columns ?vi"
  let ?res = "metrics (runQuery env metric
                         (Some \<lparr>Columns = Some columns, Rows = rs, Err = e\<rparr>) a)"
  have at: "?res (?key vs) = Some (rowEntry env columns ?vi vs)"
    if "n < length rs" "rs ! n = Row vs" "length vs = length columns"
       "\<forall>j values'. n < j \<and> j < length rs \<and> rs ! j = Row values'
            \<and> length values' = length columns \<longrightarrow> ?key values' \<noteq> ?key vs"
    for n vs
  proof -
    have split: "rs = take n rs @ Row vs # drop (Suc n) rs"
      using that(1,2) by (metis id_take_nth_drop)
    have later: "\<forall>values'. Row values' \<in> set (drop (Suc n) rs) \<and> length values' = length columns
                   \<longrightarrow> ?key values' \<noteq> ?key vs"
    proof (intro allI impI)
      fix values'
      assume a: "Row values' \<in> set (drop (Suc n) rs) \<and> length values' = length columns"
      then obtain m where m: "m < length (drop (Suc n) rs)" "drop (Suc n) rs ! m = Row values'"
        by (meson in_set_conv_nth)
      have "Suc n + m < length rs" "rs ! (Suc n + m) = Row values'"
        using m by simp_all
      then show "?key values' \<noteq> ?key vs"
        using that(4) a by (metis less_add_Suc1 add_Suc)
    qed
    have "metrics (runQuery env metric
                     (Some \<lparr>Columns = Some columns,
                            Rows = take n rs @ Row vs # drop (Suc n) rs, Err = e\<rparr>) a)
            (?key vs) = Some (rowEntry env columns ?vi vs)"
      using assms(1) that(3) later by (rule row_stored_after_poll)
    then show ?thesis using split by simp
  qed
  obtain j where j: "i \<le> j" "j < length rs"
      "\<exists>v. rs ! j = Row v \<and> length v = length columns \<and> ?key v = ?key values"
      "\<forall>j''. j < j'' \<and> j'' < length rs
         \<longrightarrow> \<not> (\<exists>v. rs ! j'' = Row v \<and> length v = length columns \<and> ?key v = ?key values)"
    using last_such_index[of i "length rs"
        "\<lambda>n. \<exists>v. rs ! n = Row v \<and> length v = length columns \<and> ?key v = ?key values"]
      assms(2,3,4) by auto
  obtain v where v: "rs ! j = Row v" "length v = length columns" "?key v = ?key values"
    using j(3) by blast
  have "?res (?key v) = Some (rowEntry env columns ?vi v)"
    using j(2) v(1,2)
  proof (rule at)
    show "\<forall>ja values'. j < ja \<and> ja < length rs \<and> rs ! ja = Row values'
            \<and> length values' = length columns \<longrightarrow> ?key values' \<noteq> ?key v"
      using j(4) v(3) by auto
  qed
  then have last: "\<exists>j values'. i \<le> j \<and> j < length rs \<and> rs ! j = Row values'
            \<and> length values' = length columns \<and> ?key values' = ?key values
            \<and> ?res (?key values) = Some (rowEntry env columns ?vi values')"
    using j(1,2) v by auto
  have own: "(\<forall>j values'. i < j \<and> j < length rs \<and> rs ! j = Row values'
                  \<and> length values' = length columns \<longrightarrow> ?key values' \<noteq> ?key values)
              \<longrightarrow> ?res (?key values) = Some (rowEntry env columns ?vi values)"
    using at[OF assms(2,3,4)] by blast
  have skip: "metrics (runQuery env metric
                      (Some \<lparr>Columns = cs, Rows = rsa @ ScanError # rsb, Err = e'\<rparr>) a')
           = metrics (runQuery env metric
                        (Some \<lparr>Columns = cs, Rows = rsa @ rsb, Err = e'\<rparr>) a')"
    by (cases cs) (simp_all add: metrics_runQuery_no_columns metrics_runQuery scan_def)
  have err: "metrics (runQuery env metric (Some \<lparr>Columns = cs, Rows = rsa, Err = True\<rparr>) a')
           = metrics (runQuery env metric (Some \<lparr>Columns = cs, Rows = rsa, Err = False\<rparr>) a')"
    by (cases cs) (simp_all add: metrics_runQuery_no_columns metrics_runQuery)
  show ?thesis
    by (intro conjI) (rule last own skip err)+
qed

theorem runQuery_row_and_cursor_errors_witness:
  "''value'' \<in> set [''status'', ''value'']
   \<and> (1::nat) < length [ScanError, Row [VBytes ''active'', VInt64 150], ScanError,
                        Row [VBytes ''inactive'', VInt64 75 :: int govalue]]
   \<and> [ScanError, Row [VBytes ''active'', VInt64 150], ScanError,
       Row [VBytes ''inactive'', VInt64 75 :: int govalue]] ! 1
      = Row [VBytes ''active'', VInt64 150]
   \<and> length [VBytes ''active'', VInt64 150 :: int govalue] = length [''status'', ''value'']
   \<and> rowKey decimalEnv \<lparr>Name = ''users'', Query = ''q'', Interval = 60\<rparr>
        [''status'', ''value''] 1 [VBytes ''active'', VInt64 150] = ''users_status_active''
   \<and> rowEntry decimalEnv [''status'', ''value''] 1 [VBytes ''active'', VInt64 150]
        = Labeled (VInt64 150) [''status'' \<mapsto> ''active'']
   \<and> metrics (runQuery decimalEnv \<lparr>Name = ''users'', Query = ''q'', Interval = 60\<rparr>
        (Some \<lparr>Columns = Some [''status'', ''value''],
               Rows = [ScanError, Row [VBytes ''active'', VInt64 150], ScanError,
                       Row [VBytes ''inactive'', VInt64 75]],
               Err = True\<rparr>)
        \<lparr>metrics = [''users_status_old'' \<mapsto> Labeled (VInt64 9) [''status'' \<mapsto> ''old'']],
         logged = []\<rparr>) ''users_status_active''
     = Some (Labeled (VInt64 150) [''status'' \<mapsto> ''active''])
   \<and> metrics (runQuery decimalEnv \<lparr>Name = ''users'', Query = ''q'', Interval = 60\<rparr>
        (Some \<lparr>Columns = Some [''status'', ''value''],
               Rows = [ScanError, Row [VBytes ''active'', VInt64 150], ScanError,
                       Row [VBytes ''inactive'', VInt64 75]],
               Err = True\<rparr>)
        \<lparr>metrics = [''users_status_old'' \<mapsto> Labeled (VInt64 9) [''status'' \<mapsto> ''old'']],
         logged = []\<rparr>)
     = [''users_status_active'' \<mapsto> Labeled (VInt64 150) [''status'' \<mapsto> ''active''],
        ''users_status_inactive'' \<mapsto> Labeled (VInt64 75) [''status'' \<mapsto> ''inactive'']]"
proof -
  let ?metric = "\<lparr>Name = ''users'', Query = ''q'', Interval = 60\<rparr>"
  let ?columns = "[''status'', ''value'']"
  let ?vals = "[VBytes ''active'', VInt64 150 :: int govalue]"
  let ?rs = "[ScanError, Row [VBytes ''active'', VInt64 150], ScanError,
              Row [VBytes ''inactive'', VInt64 75 :: int govalue]]"
  let ?a = "\<lparr>metrics = [''users_status_old'' \<mapsto> Labeled (VInt64 9) [''status'' \<mapsto> ''old'']],
             logged = []\<rparr> :: int App"
  have idx: "nat (findValueIdx ?columns 0) = 1" by simp
  have 1: "''value'' \<in> set ?columns" by simp
  have 2: "(1::nat) < length ?rs" by simp
  have 3: "?rs ! 1 = Row ?vals" by simp
  have 4: "length ?vals = length ?columns" by simp
  have key: "rowKey decimalEnv ?metric ?columns 1 ?vals = ''users_status_active''"
    by (simp add: rowKey_def rowLabels_def labelValue_def buildLabelsKey_def lookupLabel_def)
  have key2: "rowKey decimalEnv ?metric ?columns 1 [VBytes ''inactive'', VInt64 75]
                = ''users_status_inactive''"
    by (simp add: rowKey_def rowLabels_def labelValue_def buildLabelsKey_def lookupLabel_def)
  have entry: "rowEntry decimalEnv ?columns 1 ?vals
                 = Labeled (VInt64 150) [''status'' \<mapsto> ''active'']"
    by (simp add: rowEntry_def rowLabels_def labelValue_def)
  have later: "\<forall>j values'. 1 < j \<and> j < length ?rs \<and> ?rs ! j = Row values'
                  \<and> length values' = length ?columns
                \<longrightarrow> rowKey decimalEnv ?metric ?columns (nat (findValueIdx ?columns 0)) values'
                      \<noteq> rowKey decimalEnv ?metric ?columns (nat (findValueIdx ?columns 0))
                            ?vals"
  proof (intro allI impI)
    fix j :: nat and values' :: "int govalue list"
    assume a: "1 < j \<and> j < length ?rs \<and> ?rs ! j = Row values' \<and> length values' = length ?columns"
    then have "j = 2 \<or> j = 3" by auto
    then have "values' = [VBytes ''inactive'', VInt64 75]" using a by auto
    then show "rowKey decimalEnv ?metric ?columns (nat (findValueIdx ?columns 0)) values'
                 \<noteq> rowKey decimalEnv ?metric ?columns (nat (findValueIdx ?columns 0)) ?vals"
      unfolding idx using key key2 by simp
  qed
  note t = runQuery_row_and_cursor_errors [OF 1 2 3 4, of decimalEnv ?metric True ?a]
  have 5: "metrics (runQuery decimalEnv ?metric
             (Some \<lparr>Columns = Some ?columns, Rows = ?rs, Err = True\<rparr>) ?a) ''users_status_active''
           = Some (Labeled (VInt64 150) [''status'' \<mapsto> ''active''])"
    using t[THEN conjunct2, THEN conjunct1, THEN mp, OF later, unfolded idx key entry] .
  have 6: "metrics (runQuery decimalEnv ?metric
             (Some \<lparr>Columns = Some ?columns, Rows = ?rs, Err = True\<rparr>) ?a)
           = [''users_status_active'' \<mapsto> Labeled (VInt64 150) [''status'' \<mapsto> ''active''],
              ''users_status_inactive'' \<mapsto> Labeled (VInt64 75) [''status'' \<mapsto> ''inactive'']]"
    by (simp add: metrics_runQuery deletePrefixed_def hasPrefix_def scan_def storeRow_def
        labelValue_def buildLabelsKey_def lookupLabel_def Let_def fun_eq_iff)
  show ?thesis
    by (intro conjI) (rule 1 2 3 4 key entry 5 6)+
qed

section \<open>Label values\<close>

text \<open>A key that no later label column writes keeps what the map held.\<close>

lemma createLabels_other:
  "(\<forall>j < length columns. i + j \<noteq> valueIdx \<longrightarrow> columns ! j \<noteq> k) \<Longrightarrow>
     createLabels env valueIdx values i columns labels k = labels k"
proof (induction columns arbitrary: i labels)
  case Nil
  then show ?case by simp
next
  case (Cons col columns)
  have tl: "\<forall>j < length columns. Suc i + j \<noteq> valueIdx \<longrightarrow> columns ! j \<noteq> k"
    using Cons.prems by (metis add_Suc_shift length_Cons nth_Cons_Suc Suc_less_eq)
  have hd: "i \<noteq> valueIdx \<Longrightarrow> col \<noteq> k"
    using Cons.prems by (metis add.right_neutral length_Cons nth_Cons_0 zero_less_Suc)
  show ?case
  proof (cases "i = valueIdx")
    case True
    have "createLabels env valueIdx values i (col # columns) labels k
            = createLabels env valueIdx values (Suc i) columns labels k"
      using True by simp
    also have "\<dots> = labels k" by (rule Cons.IH[OF tl])
    finally show ?thesis .
  next
    case False
    have "createLabels env valueIdx values i (col # columns) labels k
            = createLabels env valueIdx values (Suc i) columns
                (labels(col \<mapsto> labelValue env (values ! i))) k"
      using False by simp
    also have "\<dots> = (labels(col \<mapsto> labelValue env (values ! i))) k"
      by (rule Cons.IH[OF tl])
    also have "\<dots> = labels k" using hd[OF False] by simp
    finally show ?thesis .
  qed
qed

text \<open>The label of column \<open>j\<close>, when no later label column has the same name.\<close>

lemma createLabels_at:
  "j < length columns \<Longrightarrow> i + j \<noteq> valueIdx \<Longrightarrow>
   (\<forall>j'. j < j' \<and> j' < length columns \<and> i + j' \<noteq> valueIdx
      \<longrightarrow> columns ! j' \<noteq> columns ! j) \<Longrightarrow>
   createLabels env valueIdx values i columns labels (columns ! j)
     = Some (labelValue env (values ! (i + j)))"
proof (induction columns arbitrary: i j labels)
  case Nil
  then show ?case by simp
next
  case (Cons col columns)
  show ?case
  proof (cases j)
    case 0
    have "\<forall>j' < length columns. Suc i + j' \<noteq> valueIdx \<longrightarrow> columns ! j' \<noteq> col"
    proof (intro allI impI)
      fix j' assume a: "j' < length columns" "Suc i + j' \<noteq> valueIdx"
      have "(col # columns) ! Suc j' \<noteq> (col # columns) ! j"
        using Cons.prems(3) a 0 by (metis add_Suc_shift length_Cons Suc_less_eq zero_less_Suc)
      then show "columns ! j' \<noteq> col" using 0 by simp
    qed
    then have "createLabels env valueIdx values (Suc i) columns
                 (labels(col \<mapsto> labelValue env (values ! i))) col
               = (labels(col \<mapsto> labelValue env (values ! i))) col"
      by (rule createLabels_other)
    then show ?thesis using 0 Cons.prems(2) by simp
  next
    case (Suc n)
    have 1: "n < length columns" using Cons.prems(1) Suc by simp
    have 2: "Suc i + n \<noteq> valueIdx" using Cons.prems(2) Suc by simp
    have 3: "\<forall>j'. n < j' \<and> j' < length columns \<and> Suc i + j' \<noteq> valueIdx
               \<longrightarrow> columns ! j' \<noteq> columns ! n"
    proof (intro allI impI)
      fix j' assume a: "n < j' \<and> j' < length columns \<and> Suc i + j' \<noteq> valueIdx"
      have "(col # columns) ! Suc j' \<noteq> (col # columns) ! j"
        using Cons.prems(3)[rule_format, of "Suc j'"] a Suc by simp
      then show "columns ! j' \<noteq> columns ! n" using Suc by simp
    qed
    have ih: "createLabels env valueIdx values (Suc i) columns L (columns ! n)
            = Some (labelValue env (values ! (Suc i + n)))" for L
      using Cons.IH[OF 1 2 3] .
    have "createLabels env valueIdx values i (col # columns) labels ((col # columns) ! j)
            = createLabels env valueIdx values (Suc i) columns
                (if i = valueIdx then labels
                 else labels(col \<mapsto> labelValue env (values ! i)))
                (columns ! n)"
      using Suc by simp
    also have "\<dots> = Some (labelValue env (values ! (Suc i + n)))" by (rule ih)
    finally show ?thesis using Suc by simp
  qed
qed

text \<open>
  C9, as stated: each column other than the value column becomes a label with the text
  of its value. The labels are a map keyed by the column name, so of two label columns
  with one name only the later is kept: for the columns \<open>a, value, a\<close> and the row
  \<open>(x, 1, y)\<close> the label \<open>a\<close> is \<open>y\<close>, not the text of column 0.
\<close>

theorem createLabels_shadowed_counterexample:
  "(0::nat) < length [''a'', ''value'', ''a'']
   \<and> (0::nat) \<noteq> 1
   \<and> labelValue decimalEnv ([VBytes ''x'', VInt64 1, VBytes ''y''] ! 0) = ''x''
   \<and> createLabels decimalEnv 1 [VBytes ''x'', VInt64 1, VBytes ''y''] 0
        [''a'', ''value'', ''a''] Map.empty ([''a'', ''value'', ''a''] ! 0)
      \<noteq> Some (labelValue decimalEnv ([VBytes ''x'', VInt64 1, VBytes ''y''] ! 0))
   \<and> createLabels decimalEnv 1 [VBytes ''x'', VInt64 1, VBytes ''y''] 0
        [''a'', ''value'', ''a''] Map.empty ([''a'', ''value'', ''a''] ! 0) = Some ''y''"
  by (simp add: labelValue_def)

text \<open>
  C9, amended: in the labels of a scanned row, the label under the name of a column
  \<open>j\<close> other than the value column is the text of the last label column \<open>j'\<close> of
  that name: \<open>null\<close> for \<open>nil\<close>, the bytes themselves for a \<open>[]byte\<close>, and the
  \<open>%v\<close> text for every other type. When no later label column has the name of
  column \<open>j\<close>, it is the text of column \<open>j\<close> itself.
\<close>

theorem createLabels_stringification:
  assumes "j < length columns" and "j \<noteq> valueIdx"
  shows "(\<exists>j'. j \<le> j' \<and> j' < length columns \<and> j' \<noteq> valueIdx \<and> columns ! j' = columns ! j
            \<and> (\<forall>j''. j' < j'' \<and> j'' < length columns \<and> j'' \<noteq> valueIdx
                  \<longrightarrow> columns ! j'' \<noteq> columns ! j)
            \<and> createLabels env valueIdx values 0 columns Map.empty (columns ! j)
                = Some (case values ! j' of
                          VNil \<Rightarrow> ''null''
                        | VBytes b \<Rightarrow> b
                        | v \<Rightarrow> sprint_v env v))
         \<and> ((\<forall>j'. j < j' \<and> j' < length columns \<and> j' \<noteq> valueIdx
                \<longrightarrow> columns ! j' \<noteq> columns ! j)
              \<longrightarrow> createLabels env valueIdx values 0 columns Map.empty (columns ! j)
                    = Some (case values ! j of
                              VNil \<Rightarrow> ''null''
                            | VBytes b \<Rightarrow> b
                            | v \<Rightarrow> sprint_v env v))"
proof -
  have at: "createLabels env valueIdx values 0 columns Map.empty (columns ! i)
              = Some (case values ! i of
                        VNil \<Rightarrow> ''null''
                      | VBytes b \<Rightarrow> b
                      | v \<Rightarrow> sprint_v env v)"
    if "i < length columns" "i \<noteq> valueIdx"
       "\<forall>j'. i < j' \<and> j' < length columns \<and> j' \<noteq> valueIdx \<longrightarrow> columns ! j' \<noteq> columns ! i"
    for i
  proof -
    have "createLabels env valueIdx values 0 columns Map.empty (columns ! i)
            = Some (labelValue env (values ! (0 + i)))"
      using that by (intro createLabels_at) simp_all
    then show ?thesis by (simp add: labelValue_def split: govalue.splits)
  qed
  obtain j' where j': "j \<le> j'" "j' < length columns"
      "j' \<noteq> valueIdx \<and> columns ! j' = columns ! j"
      "\<forall>j''. j' < j'' \<and> j'' < length columns
         \<longrightarrow> \<not> (j'' \<noteq> valueIdx \<and> columns ! j'' = columns ! j)"
    using last_such_index[of j "length columns" "\<lambda>i. i \<noteq> valueIdx \<and> columns ! i = columns ! j"]
      assms by auto
  have "\<forall>j''. j' < j'' \<and> j'' < length columns \<and> j'' \<noteq> valueIdx
          \<longrightarrow> columns ! j'' \<noteq> columns ! j'"
    using j'(3,4) by auto
  then have "createLabels env valueIdx values 0 columns Map.empty (columns ! j')
               = Some (case values ! j' of
                         VNil \<Rightarrow> ''null''
                       | VBytes b \<Rightarrow> b
                       | v \<Rightarrow> sprint_v env v)"
    using j'(2,3) by (intro at) simp_all
  then have last: "createLabels env valueIdx values 0 columns Map.empty (columns ! j)
               = Some (case values ! j' of
                         VNil \<Rightarrow> ''null''
                       | VBytes b \<Rightarrow> b
                       | v \<Rightarrow> sprint_v env v)"
    using j'(3) by simp
  have first: "\<exists>j'. j \<le> j' \<and> j' < length columns \<and> j' \<noteq> valueIdx \<and> columns ! j' = columns ! j
            \<and> (\<forall>j''. j' < j'' \<and> j'' < length columns \<and> j'' \<noteq> valueIdx
                  \<longrightarrow> columns ! j'' \<noteq> columns ! j)
            \<and> createLabels env valueIdx values 0 columns Map.empty (columns ! j)
                = Some (case values ! j' of
                          VNil \<Rightarrow> ''null''
                        | VBytes b \<Rightarrow> b
                        | v \<Rightarrow> sprint_v env v)"
    using j' last by blast
  show ?thesis using first at[OF assms] by blast
qed

theorem createLabels_stringification_witness:
  "(0::nat) < length [''region'', ''value'', ''region'', ''shard'']
   \<and> (0::nat) \<noteq> 1
   \<and> createLabels decimalEnv 1 [VBytes ''eu'', VInt64 5, VNil, VInt64 7] 0
        [''region'', ''value'', ''region'', ''shard''] Map.empty ''region'' = Some ''null''
   \<and> (3::nat) < length [''region'', ''value'', ''region'', ''shard'']
   \<and> (3::nat) \<noteq> 1
   \<and> createLabels decimalEnv 1 [VBytes ''eu'', VInt64 5, VNil, VInt64 7] 0
        [''region'', ''value'', ''region'', ''shard''] Map.empty ''shard'' = Some ''7''"
proof -
  let ?columns = "[''region'', ''value'', ''region'', ''shard'']"
  let ?vals = "[VBytes ''eu'', VInt64 5, VNil, VInt64 7 :: int govalue]"
  have a: "(0::nat) < length ?columns" "(0::nat) \<noteq> 1" by simp_all
  have b: "(3::nat) < length ?columns" "(3::nat) \<noteq> 1" by simp_all
  have h: "\<forall>j'. 3 < j' \<and> j' < length ?columns \<and> j' \<noteq> 1 \<longrightarrow> ?columns ! j' \<noteq> ?columns ! 3"
    by simp
  note t0 = createLabels_stringification [OF a, of decimalEnv ?vals, THEN conjunct1]
  note t3 = createLabels_stringification [OF b, of decimalEnv ?vals, THEN conjunct2, THEN mp, OF h]
  obtain j' where j': "0 \<le> j'" "j' < length ?columns" "j' \<noteq> 1" "?columns ! j' = ?columns ! 0"
     "\<forall>j''. j' < j'' \<and> j'' < length ?columns \<and> j'' \<noteq> 1 \<longrightarrow> ?columns ! j'' \<noteq> ?columns ! 0"
     "createLabels decimalEnv 1 ?vals 0 ?columns Map.empty (?columns ! 0)
        = Some (case ?vals ! j' of VNil \<Rightarrow> ''null'' | VBytes b \<Rightarrow> b | v \<Rightarrow> sprint_v decimalEnv v)"
    using t0 by blast
  have "j' = 0 \<or> j' = 1 \<or> j' = 2 \<or> j' = 3" using j'(2) by auto
  then have "j' = 2"
    using j'(3,4) j'(5)[rule_format, of 2] by auto
  then have 1: "createLabels decimalEnv 1 ?vals 0 ?columns Map.empty ''region'' = Some ''null''"
    using j'(6) by simp
  have 2: "createLabels decimalEnv 1 ?vals 0 ?columns Map.empty ''shard'' = Some ''7''"
    using t3 by (simp add: decimalEnv_def showInt_def)
  show ?thesis by (intro conjI) (rule a b 1 2)+
qed

section \<open>The key of a label set\<close>

lemma sort_rangeOf: "rangeOf ks m \<Longrightarrow> rangeOf ks' m \<Longrightarrow> sort ks = sort ks'"
  unfolding rangeOf_def
  by (metis sorted_sort distinct_sort set_sort sorted_distinct_set_unique)

text \<open>
  C10. The key that \<open>buildLabelsKey\<close> produces depends on the label map only: any two
  orders in which the map is ranged over give the same string, because the keys are
  sorted before they are written; equal maps give equal keys.
\<close>

theorem buildLabelsKey_order_independent:
  assumes "rangeOf ks labels" and "rangeOf ks' labels'" and "labels = labels'"
  shows "buildLabelsKey ks labels = buildLabelsKey ks' labels'"
  using assms sort_rangeOf[of ks labels ks'] by (simp add: buildLabelsKey_def)

theorem buildLabelsKey_order_independent_witness:
  "rangeOf [''zone'', ''region''] [''region'' \<mapsto> ''eu'', ''zone'' \<mapsto> ''a'']
   \<and> rangeOf [''region'', ''zone''] [''zone'' \<mapsto> ''a'', ''region'' \<mapsto> ''eu'']
   \<and> [''region'' \<mapsto> ''eu'', ''zone'' \<mapsto> ''a''] = [''zone'' \<mapsto> ''a'', ''region'' \<mapsto> ''eu'']
   \<and> buildLabelsKey [''zone'', ''region''] [''region'' \<mapsto> ''eu'', ''zone'' \<mapsto> ''a'']
     = buildLabelsKey [''region'', ''zone''] [''zone'' \<mapsto> ''a'', ''region'' \<mapsto> ''eu'']
   \<and> buildLabelsKey [''zone'', ''region''] [''region'' \<mapsto> ''eu'', ''zone'' \<mapsto> ''a'']
     = ''region_eu_zone_a''"
proof -
  have 1: "rangeOf [''zone'', ''region''] [''region'' \<mapsto> ''eu'', ''zone'' \<mapsto> ''a'']"
    by (auto simp add: rangeOf_def)
  have 2: "rangeOf [''region'', ''zone''] [''zone'' \<mapsto> ''a'', ''region'' \<mapsto> ''eu'']"
    by (auto simp add: rangeOf_def)
  have 3: "[''region'' \<mapsto> ''eu'', ''zone'' \<mapsto> ''a''] = [''zone'' \<mapsto> ''a'', ''region'' \<mapsto> ''eu'']"
    by (simp add: fun_upd_twist)
  have 4: "buildLabelsKey [''zone'', ''region''] [''region'' \<mapsto> ''eu'', ''zone'' \<mapsto> ''a'']
             = ''region_eu_zone_a''"
    by (simp add: buildLabelsKey_def lookupLabel_def)
  show ?thesis
    using buildLabelsKey_order_independent [OF 1 2 3] 1 2 3 4 by simp
qed

text \<open>
  C6. Two series with different label sets should be stored under different keys.
  The key is the concatenation of the name, the label keys and the label values with
  \<open>_\<close> between them, so a value that contains \<open>_\<close> can stand for a boundary: the
  rows \<open>(region = "eu_zone_1", zone = "a")\<close> and \<open>(region = "eu", zone = "1_zone_a")\<close>
  of one poll get the same key, and the map holds only the second afterwards.
\<close>

theorem runQuery_key_collision:
  "metrics (runQuery env \<lparr>Name = ''latency'', Query = ''q'', Interval = 60\<rparr>
       (Some \<lparr>Columns = Some [''region'', ''zone'', ''value''],
              Rows = [Row [VBytes ''eu_zone_1'', VBytes ''a'', VInt64 1],
                      Row [VBytes ''eu'', VBytes ''1_zone_a'', VInt64 2]],
              Err = False\<rparr>)
       \<lparr>metrics = Map.empty, logged = []\<rparr>)
   = [''latency_region_eu_zone_1_zone_a'' \<mapsto>
        Labeled (VInt64 2) [''region'' \<mapsto> ''eu'', ''zone'' \<mapsto> ''1_zone_a'']]"
  by (simp add: metrics_runQuery deletePrefixed_def hasPrefix_def scan_def storeRow_def
      labelValue_def buildLabelsKey_def lookupLabel_def Let_def)

text \<open>The string that \<open>buildLabelsKey\<close> writes, as a concatenation with separators.\<close>

lemma writeKeys_join:
  "writeKeys labels i keys =
     (if keys = [] then []
      else (if i > 0 then ''_'' else []) @ joinUnderscore (keyParts labels keys))"
proof (induction keys arbitrary: i)
  case Nil
  then show ?case by simp
next
  case (Cons k keys)
  show ?case
  proof (cases keys)
    case Nil
    then show ?thesis by (simp add: keyParts_def)
  next
    case (Cons k2 keys2)
    have "writeKeys labels (Suc i) keys = ''_'' @ joinUnderscore (keyParts labels keys)"
      using Cons.IH[of "Suc i"] Cons by simp
    then show ?thesis using Cons by (simp add: keyParts_def)
  qed
qed

lemma split_at_underscore:
  assumes "CHR ''_'' \<notin> set x" and "CHR ''_'' \<notin> set y"
    and "x @ ''_'' @ r = y @ ''_'' @ r'"
  shows "x = y \<and> r = r'"
proof -
  have tx: "takeWhile (\<lambda>c. c \<noteq> CHR ''_'') (x @ ''_'' @ r) = x"
    using assms(1) by (auto simp add: takeWhile_tail)
  have ty: "takeWhile (\<lambda>c. c \<noteq> CHR ''_'') (y @ ''_'' @ r') = y"
    using assms(2) by (auto simp add: takeWhile_tail)
  have "x = y" using tx ty assms(3) by simp
  then show ?thesis using assms(3) by simp
qed

lemma joinUnderscore_inj:
  assumes "\<forall>x \<in> set xs. CHR ''_'' \<notin> set x" and "\<forall>y \<in> set ys. CHR ''_'' \<notin> set y"
    and "xs \<noteq> []" and "ys \<noteq> []"
    and "joinUnderscore xs = joinUnderscore ys"
  shows "xs = ys"
  using assms
proof (induction xs arbitrary: ys rule: joinUnderscore.induct)
  case 1
  then show ?case by simp
next
  case (2 x)
  show ?case
  proof (cases ys rule: joinUnderscore.cases)
    case 1
    then show ?thesis using "2.prems" by simp
  next
    case (2 y)
    then show ?thesis using "2.prems" by simp
  next
    case (3 y y2 ys')
    then have "x = y @ ''_'' @ joinUnderscore (y2 # ys')" using "2.prems" by simp
    then have "CHR ''_'' \<in> set x" by simp
    then show ?thesis using "2.prems" by simp
  qed
next
  case (3 x x2 xs')
  show ?case
  proof (cases ys rule: joinUnderscore.cases)
    case 1
    then show ?thesis using "3.prems" by simp
  next
    case (2 y)
    then have "y = x @ ''_'' @ joinUnderscore (x2 # xs')" using "3.prems" by simp
    then have "CHR ''_'' \<in> set y" by simp
    then show ?thesis using "3.prems" 2 by simp
  next
    case (3 y y2 ys')
    have eq: "x @ ''_'' @ joinUnderscore (x2 # xs') = y @ ''_'' @ joinUnderscore (y2 # ys')"
      using "3.prems" 3 by simp
    have "x = y \<and> joinUnderscore (x2 # xs') = joinUnderscore (y2 # ys')"
      using "3.prems" 3 by (intro split_at_underscore[OF _ _ eq]) simp_all
    moreover have "x2 # xs' = y2 # ys'"
      using "3.prems" 3 calculation by (intro "3.IH") simp_all
    ultimately show ?thesis using 3 by simp
  qed
qed


lemma keyParts_Nil: "keyParts l [] = []"
  by (simp add: keyParts_def)

lemma keyParts_Cons: "keyParts l (k # ks) = k # lookupLabel l k # keyParts l ks"
  by (simp add: keyParts_def)

lemma keyParts_inj:
  "keyParts l ks = keyParts l' ks' \<Longrightarrow>
     ks = ks' \<and> (\<forall>k \<in> set ks. lookupLabel l k = lookupLabel l' k)"
proof (induction ks arbitrary: ks')
  case Nil
  then show ?case by (cases ks') (simp_all add: keyParts_Nil keyParts_Cons)
next
  case (Cons k ks)
  show ?case
  proof (cases ks')
    case Nil
    then show ?thesis using Cons.prems by (simp add: keyParts_Nil keyParts_Cons)
  next
    case (Cons k' ks'')
    have h: "k = k'" "lookupLabel l k = lookupLabel l' k'" "keyParts l ks = keyParts l' ks''"
      using Cons.prems Cons by (auto simp add: keyParts_Cons)
    have "ks = ks'' \<and> (\<forall>k \<in> set ks. lookupLabel l k = lookupLabel l' k)"
      using h(3) by (rule Cons.IH)
    then show ?thesis using h Cons by auto
  qed
qed


text \<open>
  The key under which \<open>storeRow\<close> puts a row with the labels \<open>l\<close> for the metric
  named \<open>n\<close> determines both, as long as no name, label key or label value contains
  the separator.
\<close>

lemma keys_unambiguous:
  assumes n: "CHR ''_'' \<notin> set n" "CHR ''_'' \<notin> set n'"
    and fin: "finite (dom l)" "finite (dom l')"
    and l: "\<forall>k v. l k = Some v \<longrightarrow> CHR ''_'' \<notin> set k \<and> CHR ''_'' \<notin> set v"
    and l': "\<forall>k v. l' k = Some v \<longrightarrow> CHR ''_'' \<notin> set k \<and> CHR ''_'' \<notin> set v"
    and eq: "(if l \<noteq> Map.empty then n @ ''_'' @ buildLabelsKey (sorted_list_of_set (dom l)) l else n)
           = (if l' \<noteq> Map.empty then n' @ ''_'' @ buildLabelsKey (sorted_list_of_set (dom l')) l' else n')"
  shows "n = n' \<and> l = l'"
proof -
  let ?ks = "sorted_list_of_set (dom l)" and ?ks' = "sorted_list_of_set (dom l')"
  have sk: "sort ?ks = ?ks" "sort ?ks' = ?ks'"
    by (simp_all add: sorted_sort_id)
  have set_ks: "set ?ks = dom l" "set ?ks' = dom l'" using fin by simp_all
  have key: "(if m \<noteq> Map.empty then s @ ''_'' @ buildLabelsKey (sorted_list_of_set (dom m)) m else s)
               = joinUnderscore (s # keyParts m (sorted_list_of_set (dom m)))"
    if "finite (dom m)" for m s
  proof (cases "m = Map.empty")
    case True
    then show ?thesis by (simp add: keyParts_def)
  next
    case False
    then have ne: "sorted_list_of_set (dom m) \<noteq> []" using that by simp
    then obtain k ks where ks: "sorted_list_of_set (dom m) = k # ks"
      by (cases "sorted_list_of_set (dom m)") simp_all
    have "sort (sorted_list_of_set (dom m)) = sorted_list_of_set (dom m)"
      by (simp add: sorted_sort_id)
    then show ?thesis using False ks
      by (simp add: buildLabelsKey_def writeKeys_join keyParts_def)
  qed
  have parts: "\<forall>x \<in> set (keyParts m (sorted_list_of_set (dom m))). CHR ''_'' \<notin> set x"
    if "finite (dom m)" "\<forall>k v. m k = Some v \<longrightarrow> CHR ''_'' \<notin> set k \<and> CHR ''_'' \<notin> set v" for m
    using that by (auto simp add: keyParts_def lookupLabel_def split: option.splits)
  have "joinUnderscore (n # keyParts l ?ks) = joinUnderscore (n' # keyParts l' ?ks')"
    using eq key[OF fin(1)] key[OF fin(2)] by simp
  then have "n # keyParts l ?ks = n' # keyParts l' ?ks'"
    using n parts[OF fin(1) l] parts[OF fin(2) l']
    by (intro joinUnderscore_inj) simp_all
  then have nn: "n = n'" and kp: "keyParts l ?ks = keyParts l' ?ks'" by simp_all
  have ks: "?ks = ?ks'" and vals: "\<forall>k \<in> set ?ks. lookupLabel l k = lookupLabel l' k"
    using keyParts_inj[OF kp] by blast+
  have d: "dom l = dom l'" using ks set_ks by metis
  have "l k = l' k" for k
  proof (cases "k \<in> dom l")
    case True
    then have "lookupLabel l k = lookupLabel l' k" using vals set_ks(1) by blast
    moreover obtain v where "l k = Some v" using True by blast
    moreover obtain v' where "l' k = Some v'" using True d by blast
    ultimately show ?thesis by (simp add: lookupLabel_def)
  next
    case False
    then show ?thesis using d by (metis domIff)
  qed
  then show ?thesis using nn by (simp add: fun_eq_iff)
qed

section \<open>Facts about the handlers\<close>

text \<open>
  C4. For a family with two labelled series the response should hold one
  \<open># HELP\<close> line, one \<open># TYPE\<close> line and two samples. Every iteration of the loop
  writes its own \<open># HELP\<close> and \<open># TYPE\<close> lines, so the family \<open>users\<close> with the
  series \<open>status="active"\<close> (150) and \<open>status="inactive"\<close> (75) gets both lines
  twice.
\<close>

theorem handleMetrics_repeats_help_and_type:
  "handleMetrics decimalEnv (\<lambda>name. [''status''])
     [''users_status_active'', ''users_status_inactive'']
     \<lparr>metrics = [''users_status_active'' \<mapsto> Labeled (VInt64 150) [''status'' \<mapsto> ''active''],
                 ''users_status_inactive'' \<mapsto>
                    Labeled (VInt64 75) [''status'' \<mapsto> ''inactive'']],
      logged = []\<rparr>
   = ''# HELP users Value from custom SQL query'' @ [CHR 0x0A]
     @ ''# TYPE users gauge'' @ [CHR 0x0A]
     @ ''users{status='' @ [CHR 0x22] @ ''active'' @ [CHR 0x22] @ ''} 150'' @ [CHR 0x0A]
     @ ''# HELP users Value from custom SQL query'' @ [CHR 0x0A]
     @ ''# TYPE users gauge'' @ [CHR 0x0A]
     @ ''users{status='' @ [CHR 0x22] @ ''inactive'' @ [CHR 0x22] @ ''} 75'' @ [CHR 0x0A]"
  by (simp add: handleMetrics_def metricBlocks_def writeMetric_def toFloat64_def baseNameOf_def
      decimalEnv_def showInt_def escapeLabelValue_def escapeByte_def lookupLabel_def)

text \<open>
  C5. An unlabelled family with the value 42 should appear as \<open>family 42\<close> under its
  configured name. Both handlers cut a key at its first \<open>_\<close>; the Prometheus handler
  does so for unlabelled keys too, so \<open>active_users\<close> is written as \<open>active\<close>. The
  JSON handler keeps the name of an unlabelled key.
\<close>

theorem handleMetrics_truncates_family_name:
  "handleMetrics decimalEnv lranged [''active_users'']
     \<lparr>metrics = [''active_users'' \<mapsto> Direct (VInt64 42)], logged = []\<rparr>
   = ''# HELP active Value from custom SQL query'' @ [CHR 0x0A]
     @ ''# TYPE active gauge'' @ [CHR 0x0A]
     @ ''active 42'' @ [CHR 0x0A]
   \<and> handleMetricsJSON [''active_users'']
       \<lparr>metrics = [''active_users'' \<mapsto> Direct (VInt64 42)], logged = []\<rparr>
     = [''active_users'' \<mapsto> JDirect (VInt64 42)]"
  by (simp add: handleMetrics_def metricBlocks_def writeMetric_def toFloat64_def baseNameOf_def
      decimalEnv_def showInt_def handleMetricsJSON_def addToResponse_def)

text \<open>For every library instance, the sample line of an unlabelled key carries the base name.\<close>

lemma handleMetrics_unlabelled:
  "handleMetrics env lranged [name] \<lparr>metrics = [name \<mapsto> Direct (VInt64 n)], logged = []\<rparr>
   = ''# HELP '' @ baseNameOf name @ '' Value from custom SQL query'' @ [CHR 0x0A]
     @ ''# TYPE '' @ baseNameOf name @ '' gauge'' @ [CHR 0x0A]
     @ baseNameOf name @ '' '' @ fmt_g env (float_of_int env n) @ [CHR 0x0A]"
  by (simp add: handleMetrics_def metricBlocks_def writeMetric_def toFloat64_def Let_def)

lemma handleMetricsJSON_unlabelled:
  "handleMetricsJSON [name] \<lparr>metrics = [name \<mapsto> Direct v], logged = []\<rparr>
   = [name \<mapsto> JDirect v]"
  by (simp add: handleMetricsJSON_def addToResponse_def)

lemma mset_rangeOf: "rangeOf ks m \<Longrightarrow> rangeOf ks' m \<Longrightarrow> mset ks = mset ks'"
  unfolding rangeOf_def by (metis set_eq_iff_mset_eq_distinct)

lemma metricBlocks_permuted:
  assumes "rangeOf ks (metrics a)" and "rangeOf ks' (metrics a)"
  shows "mset (metricBlocks env lranged ks a) = mset (metricBlocks env lranged ks' a)"
proof -
  have "mset ks = mset ks'" using assms by (rule mset_rangeOf)
  then show ?thesis unfolding metricBlocks_def by simp
qed

lemma dom_addToResponse:
  "dom (addToResponse m name r) =
     dom r \<union> (case m name of
                 None \<Rightarrow> {}
               | Some (Direct d) \<Rightarrow> {name}
               | Some (Labeled v l) \<Rightarrow> {baseNameOf name})"
  by (auto simp add: addToResponse_def Let_def split: option.splits entry.splits)

lemma dom_fold_addToResponse:
  "dom (fold (addToResponse m) ks r) =
     dom r \<union> (\<Union>name \<in> set ks. case m name of
                                  None \<Rightarrow> {}
                                | Some (Direct d) \<Rightarrow> {name}
                                | Some (Labeled v l) \<Rightarrow> {baseNameOf name})"
  by (induction ks arbitrary: r) (simp_all add: dom_addToResponse Un_assoc)

lemma handleMetricsJSON_keys:
  "rangeOf ks (metrics a) \<Longrightarrow> rangeOf ks' (metrics a) \<Longrightarrow>
   dom (handleMetricsJSON ks a) = dom (handleMetricsJSON ks' a)"
  by (simp add: handleMetricsJSON_def dom_fold_addToResponse rangeOf_def)

lemma fold_addToResponse_direct:
  "(\<forall>name \<in> set ks. \<forall>v l. m name \<noteq> Some (Labeled v l)) \<Longrightarrow>
   fold (addToResponse m) ks r =
     (\<lambda>k. if k \<in> set ks
           then (case m k of Some (Direct d) \<Rightarrow> Some (JDirect d) | _ \<Rightarrow> r k)
           else r k)"
proof (induction ks arbitrary: r)
  case Nil
  then show ?case by simp
next
  case (Cons name ks)
  have step: "addToResponse m name r =
                (case m name of Some (Direct d) \<Rightarrow> r(name \<mapsto> JDirect d) | _ \<Rightarrow> r)"
    using Cons.prems by (auto simp add: addToResponse_def split: option.splits entry.splits)
  have "fold (addToResponse m) (name # ks) r
          = fold (addToResponse m) ks (addToResponse m name r)"
    by simp
  also have "\<dots> = (\<lambda>k. if k \<in> set ks
                        then (case m k of
                                Some (Direct d) \<Rightarrow> Some (JDirect d)
                              | _ \<Rightarrow> addToResponse m name r k)
                        else addToResponse m name r k)"
    using Cons.prems by (intro Cons.IH) simp
  also have "\<dots> = (\<lambda>k. if k \<in> set (name # ks)
                        then (case m k of Some (Direct d) \<Rightarrow> Some (JDirect d) | _ \<Rightarrow> r k)
                        else r k)"
    unfolding step by (rule ext) (auto split: option.splits entry.splits)
  finally show ?case .
qed

lemma handleMetricsJSON_direct:
  "rangeOf ks (metrics a) \<Longrightarrow>
   (\<forall>name v l. metrics a name \<noteq> Some (Labeled v l)) \<Longrightarrow>
   handleMetricsJSON ks a =
     (\<lambda>k. case metrics a k of Some (Direct d) \<Rightarrow> Some (JDirect d) | _ \<Rightarrow> None)"
  unfolding handleMetricsJSON_def rangeOf_def
  by (subst fold_addToResponse_direct) (auto simp add: fun_eq_iff split: option.splits entry.splits)

text \<open>
  C7, as stated: two encodings of the same snapshot are identical. The map
  \<open>{a: 1, b: 2}\<close> can be ranged over as \<open>a, b\<close> or as \<open>b, a\<close>, and the two
  responses of the Prometheus handler differ.
\<close>

theorem handleMetrics_order_counterexample:
  "rangeOf [''a'', ''b'']
       ([''a'' \<mapsto> Direct (VInt64 1), ''b'' \<mapsto> Direct (VInt64 2)] :: int store)
   \<and> rangeOf [''b'', ''a'']
       ([''a'' \<mapsto> Direct (VInt64 1), ''b'' \<mapsto> Direct (VInt64 2)] :: int store)
   \<and> handleMetrics decimalEnv (\<lambda>name. []) [''a'', ''b'']
        \<lparr>metrics = [''a'' \<mapsto> Direct (VInt64 1), ''b'' \<mapsto> Direct (VInt64 2)], logged = []\<rparr>
     \<noteq> handleMetrics decimalEnv (\<lambda>name. []) [''b'', ''a'']
        \<lparr>metrics = [''a'' \<mapsto> Direct (VInt64 1), ''b'' \<mapsto> Direct (VInt64 2)], logged = []\<rparr>"
  by (auto simp add: rangeOf_def handleMetrics_def metricBlocks_def writeMetric_def
      toFloat64_def baseNameOf_def decimalEnv_def showInt_def)

lemma groupOf_snoc: "groupOf m (ks @ [n]) k = groupOf m ks k @ seriesOf m k n"
  by (simp add: groupOf_def)

lemma mset_groupOf:
  assumes "mset ks = mset ks'"
  shows "mset (groupOf m ks k) = mset (groupOf m ks' k)"
proof -
  have "mset (groupOf m xs k) = sum_mset (image_mset (\<lambda>n. mset (seriesOf m k n)) (mset xs))"
    for xs
    by (simp add: groupOf_def mset_concat comp_def flip: sum_mset_sum_list)
  then show ?thesis using assms by simp
qed

text \<open>
  What the response holds under a key after the loop has ranged over \<open>ks\<close>, when no
  labelled key of \<open>ks\<close> has the base name of an unlabelled key.
\<close>

lemma fold_addToResponse_separated:
  assumes "\<forall>name \<in> set ks. \<forall>v l d. m name = Some (Labeled v l)
             \<longrightarrow> m (baseNameOf name) \<noteq> Some (Direct d)"
  shows "fold (addToResponse m) ks Map.empty k =
           (case m k of
              Some (Direct d) \<Rightarrow> if k \<in> set ks then Some (JDirect d) else None
            | _ \<Rightarrow> if groupOf m ks k = [] then None else Some (JGroup (groupOf m ks k)))"
  using assms
proof (induction ks arbitrary: k rule: rev_induct)
  case Nil
  then show ?case by (simp add: groupOf_def split: option.splits entry.splits)
next
  case (snoc n ks)
  let ?r = "fold (addToResponse m) ks Map.empty"
  have ih: "?r k' =
           (case m k' of
              Some (Direct d) \<Rightarrow> if k' \<in> set ks then Some (JDirect d) else None
            | _ \<Rightarrow> if groupOf m ks k' = [] then None else Some (JGroup (groupOf m ks k')))"
    for k'
    using snoc.prems by (intro snoc.IH) simp
  have step: "fold (addToResponse m) (ks @ [n]) Map.empty = addToResponse m n ?r"
    by simp
  show ?case
  proof (cases "m n")
    case None
    then have "addToResponse m n ?r = ?r" by (simp add: addToResponse_def)
    moreover have "groupOf m (ks @ [n]) k = groupOf m ks k"
      using None by (simp add: groupOf_snoc seriesOf_def)
    ultimately show ?thesis using None ih[of k] step
      by (auto split: option.splits entry.splits)
  next
    case (Some e)
    show ?thesis
    proof (cases e)
      case (Direct d)
      then have "addToResponse m n ?r = ?r(n \<mapsto> JDirect d)"
        using Some by (simp add: addToResponse_def)
      moreover have "groupOf m (ks @ [n]) k = groupOf m ks k"
        using Some Direct by (simp add: groupOf_snoc seriesOf_def)
      ultimately show ?thesis using Some Direct ih[of k] step
        by (auto split: option.splits entry.splits)
    next
      case (Labeled v l)
      let ?b = "baseNameOf n"
      have nd: "m ?b \<noteq> Some (Direct d)" for d
        using snoc.prems Some Labeled by simp
      have ex: "(case ?r ?b of Some (JGroup g) \<Rightarrow> g | _ \<Rightarrow> []) = groupOf m ks ?b"
        using ih[of ?b] nd by (auto split: option.splits entry.splits)
      have upd: "addToResponse m n ?r = ?r(?b \<mapsto> JGroup (groupOf m ks ?b @ [(v, l)]))"
        using Some Labeled ex by (simp add: addToResponse_def Let_def)
      have g: "groupOf m (ks @ [n]) k =
                 (if k = ?b then groupOf m ks k @ [(v, l)] else groupOf m ks k)"
        using Some Labeled by (auto simp add: groupOf_snoc seriesOf_def)
      show ?thesis
      proof (cases "k = ?b")
        case True
        then show ?thesis using upd g step nd by (auto split: option.splits entry.splits)
      next
        case False
        then have "addToResponse m n ?r k = ?r k" using upd by simp
        then show ?thesis using False g step ih[of k] Some Labeled
          by (auto split: option.splits entry.splits)
      qed
    qed
  qed
qed

lemma handleMetricsJSON_sameSeries:
  assumes "rangeOf ks (metrics a)" and "rangeOf ks' (metrics a)"
    and sep: "\<forall>name v l d. metrics a name = Some (Labeled v l)
                \<longrightarrow> metrics a (baseNameOf name) \<noteq> Some (Direct d)"
  shows "sameSeries (handleMetricsJSON ks a k) (handleMetricsJSON ks' a k)"
proof -
  have ms: "mset ks = mset ks'" using assms(1,2) by (rule mset_rangeOf)
  have st: "set ks = set ks'" using assms(1,2) unfolding rangeOf_def by simp
  have g: "mset (groupOf (metrics a) ks k) = mset (groupOf (metrics a) ks' k)"
    using ms by (rule mset_groupOf)
  then have e: "groupOf (metrics a) ks k = [] \<longleftrightarrow> groupOf (metrics a) ks' k = []"
    by (metis mset_zero_iff)
  have 1: "handleMetricsJSON ks a k =
             (case metrics a k of
                Some (Direct d) \<Rightarrow> if k \<in> set ks then Some (JDirect d) else None
              | _ \<Rightarrow> if groupOf (metrics a) ks k = [] then None
                     else Some (JGroup (groupOf (metrics a) ks k)))"
    unfolding handleMetricsJSON_def using sep by (intro fold_addToResponse_separated) blast
  have 2: "handleMetricsJSON ks' a k =
             (case metrics a k of
                Some (Direct d) \<Rightarrow> if k \<in> set ks' then Some (JDirect d) else None
              | _ \<Rightarrow> if groupOf (metrics a) ks' k = [] then None
                     else Some (JGroup (groupOf (metrics a) ks' k)))"
    unfolding handleMetricsJSON_def using sep by (intro fold_addToResponse_separated) blast
  show ?thesis unfolding 1 2 using st g e
    by (auto simp add: sameSeries_def split: option.splits entry.splits)
qed

lemma writeMetric_skipped:
  assumes "toFloat64 env d = None"
  shows "writeMetric env lr name (Direct d) = []" and "writeMetric env lr name (Labeled d l) = []"
  using assms by (simp_all add: writeMetric_def)

lemma writeMetric_sample_direct:
  assumes "toFloat64 env d = Some f"
  shows "\<exists>pre. writeMetric env lr name (Direct d)
           = pre @ baseNameOf name @ '' '' @ fmt_g env f @ [CHR 0x0A]"
proof (rule exI[where x = "''# HELP '' @ baseNameOf name @ '' Value from custom SQL query''
             @ [CHR 0x0A] @ ''# TYPE '' @ baseNameOf name @ '' gauge'' @ [CHR 0x0A]"])
  show "writeMetric env lr name (Direct d)
          = (''# HELP '' @ baseNameOf name @ '' Value from custom SQL query''
             @ [CHR 0x0A] @ ''# TYPE '' @ baseNameOf name @ '' gauge'' @ [CHR 0x0A])
            @ baseNameOf name @ '' '' @ fmt_g env f @ [CHR 0x0A]"
    using assms by (simp add: writeMetric_def Let_def)
qed

lemma writeMetric_sample_labeled:
  assumes "toFloat64 env d = Some f"
  shows "\<exists>pre. writeMetric env lr name (Labeled d l)
           = pre @ baseNameOf name
               @ (if l \<noteq> Map.empty then ''{'' @ writeLabelPairs True l lr @ ''}'' else [])
               @ '' '' @ fmt_g env f @ [CHR 0x0A]"
proof (rule exI[where x = "''# HELP '' @ baseNameOf name @ '' Value from custom SQL query''
             @ [CHR 0x0A] @ ''# TYPE '' @ baseNameOf name @ '' gauge'' @ [CHR 0x0A]"])
  show "writeMetric env lr name (Labeled d l)
          = (''# HELP '' @ baseNameOf name @ '' Value from custom SQL query''
             @ [CHR 0x0A] @ ''# TYPE '' @ baseNameOf name @ '' gauge'' @ [CHR 0x0A])
            @ baseNameOf name
            @ (if l \<noteq> Map.empty then ''{'' @ writeLabelPairs True l lr @ ''}'' else [])
            @ '' '' @ fmt_g env f @ [CHR 0x0A]"
    using assms by (simp add: writeMetric_def Let_def)
qed

text \<open>
  C7, amended: an encoding is determined by the snapshot together with the order in
  which the map is ranged over, and two orders can give two encodings. For any two
  orders of one snapshot (and one order of each entry's labels) the Prometheus
  response is the concatenation, in the order of the range, of the same per-key
  texts: nothing for a value that is not numeric, and otherwise a text that ends with
  the sample line of the key (the name the handler derives from the key, the labels
  in braces if there are any, the value). The JSON object has the same keys, and, when
  no unlabelled key is the base name of a labelled key, it holds under each key the
  same value, or the same series up to their order in the slice.
\<close>

theorem encoders_determined_up_to_range_order:
  assumes "rangeOf ks (metrics a)" and "rangeOf ks' (metrics a)"
  shows "handleMetrics env lranged ks a = concat (metricBlocks env lranged ks a)
         \<and> handleMetrics env lranged ks' a = concat (metricBlocks env lranged ks' a)
         \<and> (\<forall>xs. metricBlocks env lranged xs a
                   = map (\<lambda>name. case metrics a name of
                                    None \<Rightarrow> []
                                  | Some v \<Rightarrow> writeMetric env (lranged name) name v) xs)
         \<and> mset (metricBlocks env lranged ks a) = mset (metricBlocks env lranged ks' a)
         \<and> (\<forall>name d l. toFloat64 env d = None
               \<longrightarrow> writeMetric env (lranged name) name (Direct d) = []
                   \<and> writeMetric env (lranged name) name (Labeled d l) = [])
         \<and> (\<forall>name d f. toFloat64 env d = Some f
               \<longrightarrow> (\<exists>pre. writeMetric env (lranged name) name (Direct d)
                            = pre @ baseNameOf name @ '' '' @ fmt_g env f @ [CHR 0x0A]))
         \<and> (\<forall>name d l f. toFloat64 env d = Some f
               \<longrightarrow> (\<exists>pre. writeMetric env (lranged name) name (Labeled d l)
                            = pre @ baseNameOf name
                                @ (if l \<noteq> Map.empty
                                   then ''{'' @ writeLabelPairs True l (lranged name) @ ''}''
                                   else [])
                                @ '' '' @ fmt_g env f @ [CHR 0x0A]))
         \<and> dom (handleMetricsJSON ks a) = dom (handleMetricsJSON ks' a)
         \<and> ((\<forall>name v l d. metrics a name = Some (Labeled v l)
                \<longrightarrow> metrics a (baseNameOf name) \<noteq> Some (Direct d))
              \<longrightarrow> (\<forall>k. sameSeries (handleMetricsJSON ks a k) (handleMetricsJSON ks' a k)))"
proof -
  have blocks: "mset (metricBlocks env lranged ks a) = mset (metricBlocks env lranged ks' a)"
    using assms by (rule metricBlocks_permuted)
  have keys: "dom (handleMetricsJSON ks a) = dom (handleMetricsJSON ks' a)"
    using assms by (rule handleMetricsJSON_keys)
  have series: "sameSeries (handleMetricsJSON ks a k) (handleMetricsJSON ks' a k)"
    if "\<forall>name v l d. metrics a name = Some (Labeled v l)
          \<longrightarrow> metrics a (baseNameOf name) \<noteq> Some (Direct d)" for k
    using assms that by (rule handleMetricsJSON_sameSeries)
  have skipped: "\<forall>name d l. toFloat64 env d = None
               \<longrightarrow> writeMetric env (lranged name) name (Direct d) = []
                   \<and> writeMetric env (lranged name) name (Labeled d l) = []"
    by (simp add: writeMetric_skipped)
  have direct: "\<forall>name d f. toFloat64 env d = Some f
               \<longrightarrow> (\<exists>pre. writeMetric env (lranged name) name (Direct d)
                            = pre @ baseNameOf name @ '' '' @ fmt_g env f @ [CHR 0x0A])"
  proof (intro allI impI)
    fix name d f
    assume "toFloat64 env d = Some f"
    then show "\<exists>pre. writeMetric env (lranged name) name (Direct d)
                 = pre @ baseNameOf name @ '' '' @ fmt_g env f @ [CHR 0x0A]"
      by (rule writeMetric_sample_direct)
  qed
  have labelled: "\<forall>name d l f. toFloat64 env d = Some f
               \<longrightarrow> (\<exists>pre. writeMetric env (lranged name) name (Labeled d l)
                            = pre @ baseNameOf name
                                @ (if l \<noteq> Map.empty
                                   then ''{'' @ writeLabelPairs True l (lranged name) @ ''}''
                                   else [])
                                @ '' '' @ fmt_g env f @ [CHR 0x0A])"
  proof (intro allI impI)
    fix name d l f
    assume "toFloat64 env d = Some f"
    then show "\<exists>pre. writeMetric env (lranged name) name (Labeled d l)
                 = pre @ baseNameOf name
                     @ (if l \<noteq> Map.empty
                        then ''{'' @ writeLabelPairs True l (lranged name) @ ''}''
                        else [])
                     @ '' '' @ fmt_g env f @ [CHR 0x0A]"
      by (rule writeMetric_sample_labeled)
  qed
  have unfolded: "\<forall>xs. metricBlocks env lranged xs a
                   = map (\<lambda>name. case metrics a name of
                                    None \<Rightarrow> []
                                  | Some v \<Rightarrow> writeMetric env (lranged name) name v) xs"
    by (simp add: metricBlocks_def)
  have h: "handleMetrics env lranged xs a = concat (metricBlocks env lranged xs a)" for xs
    by (simp add: handleMetrics_def)
  have series': "(\<forall>name v l d. metrics a name = Some (Labeled v l)
                     \<longrightarrow> metrics a (baseNameOf name) \<noteq> Some (Direct d))
                  \<longrightarrow> (\<forall>k. sameSeries (handleMetricsJSON ks a k) (handleMetricsJSON ks' a k))"
    using series by blast
  show ?thesis
    by (intro conjI) (rule h unfolded blocks skipped direct labelled keys series')+
qed

theorem encoders_determined_up_to_range_order_witness:
  "rangeOf [''up'', ''users_status_active'', ''users_status_inactive'']
     ([''up'' \<mapsto> Direct (VInt64 1),
       ''users_status_active'' \<mapsto> Labeled (VInt64 150) [''status'' \<mapsto> ''active''],
       ''users_status_inactive'' \<mapsto> Labeled (VInt64 75) [''status'' \<mapsto> ''inactive'']]
      :: int store)
   \<and> rangeOf [''users_status_inactive'', ''up'', ''users_status_active'']
     ([''up'' \<mapsto> Direct (VInt64 1),
       ''users_status_active'' \<mapsto> Labeled (VInt64 150) [''status'' \<mapsto> ''active''],
       ''users_status_inactive'' \<mapsto> Labeled (VInt64 75) [''status'' \<mapsto> ''inactive'']]
      :: int store)
   \<and> mset (metricBlocks decimalEnv (\<lambda>name. [''status''])
        [''up'', ''users_status_active'', ''users_status_inactive'']
        \<lparr>metrics = [''up'' \<mapsto> Direct (VInt64 1),
           ''users_status_active'' \<mapsto> Labeled (VInt64 150) [''status'' \<mapsto> ''active''],
           ''users_status_inactive'' \<mapsto> Labeled (VInt64 75) [''status'' \<mapsto> ''inactive'']],
         logged = []\<rparr>)
     = mset (metricBlocks decimalEnv (\<lambda>name. [''status''])
        [''users_status_inactive'', ''up'', ''users_status_active'']
        \<lparr>metrics = [''up'' \<mapsto> Direct (VInt64 1),
           ''users_status_active'' \<mapsto> Labeled (VInt64 150) [''status'' \<mapsto> ''active''],
           ''users_status_inactive'' \<mapsto> Labeled (VInt64 75) [''status'' \<mapsto> ''inactive'']],
         logged = []\<rparr>)
   \<and> toFloat64 decimalEnv (VInt64 150) = Some 150
   \<and> (\<exists>pre. writeMetric decimalEnv [''status''] ''users_status_active''
                 (Labeled (VInt64 150) [''status'' \<mapsto> ''active''])
               = pre @ ''users{status='' @ [CHR 0x22] @ ''active'' @ [CHR 0x22] @ ''} 150''
                   @ [CHR 0x0A])
   \<and> toFloat64 decimalEnv (VString ''n/a'') = None
   \<and> writeMetric decimalEnv [''status''] ''up'' (Direct (VString ''n/a'')) = []
   \<and> sameSeries
        (handleMetricsJSON [''up'', ''users_status_active'', ''users_status_inactive'']
          (\<lparr>metrics = [''up'' \<mapsto> Direct (VInt64 1),
             ''users_status_active'' \<mapsto> Labeled (VInt64 150) [''status'' \<mapsto> ''active''],
             ''users_status_inactive'' \<mapsto> Labeled (VInt64 75) [''status'' \<mapsto> ''inactive'']],
            logged = []\<rparr> :: int App) ''users'')
        (handleMetricsJSON [''users_status_inactive'', ''up'', ''users_status_active'']
          \<lparr>metrics = [''up'' \<mapsto> Direct (VInt64 1),
             ''users_status_active'' \<mapsto> Labeled (VInt64 150) [''status'' \<mapsto> ''active''],
             ''users_status_inactive'' \<mapsto> Labeled (VInt64 75) [''status'' \<mapsto> ''inactive'']],
            logged = []\<rparr> ''users'')
   \<and> handleMetricsJSON [''up'', ''users_status_active'', ''users_status_inactive'']
        (\<lparr>metrics = [''up'' \<mapsto> Direct (VInt64 1),
           ''users_status_active'' \<mapsto> Labeled (VInt64 150) [''status'' \<mapsto> ''active''],
           ''users_status_inactive'' \<mapsto> Labeled (VInt64 75) [''status'' \<mapsto> ''inactive'']],
          logged = []\<rparr> :: int App) ''users''
     = Some (JGroup [(VInt64 150, [''status'' \<mapsto> ''active'']),
                     (VInt64 75, [''status'' \<mapsto> ''inactive''])])
   \<and> handleMetricsJSON [''users_status_inactive'', ''up'', ''users_status_active'']
        (\<lparr>metrics = [''up'' \<mapsto> Direct (VInt64 1),
           ''users_status_active'' \<mapsto> Labeled (VInt64 150) [''status'' \<mapsto> ''active''],
           ''users_status_inactive'' \<mapsto> Labeled (VInt64 75) [''status'' \<mapsto> ''inactive'']],
          logged = []\<rparr> :: int App) ''users''
     = Some (JGroup [(VInt64 75, [''status'' \<mapsto> ''inactive'']),
                     (VInt64 150, [''status'' \<mapsto> ''active''])])"
proof -
  let ?m = "[''up'' \<mapsto> Direct (VInt64 1),
             ''users_status_active'' \<mapsto> Labeled (VInt64 150) [''status'' \<mapsto> ''active''],
             ''users_status_inactive'' \<mapsto> Labeled (VInt64 75) [''status'' \<mapsto> ''inactive'']]
            :: int store"
  let ?a = "\<lparr>metrics = ?m, logged = []\<rparr>"
  let ?ks = "[''up'', ''users_status_active'', ''users_status_inactive'']"
  let ?ks' = "[''users_status_inactive'', ''up'', ''users_status_active'']"
  have 1: "rangeOf ?ks ?m" by (auto simp add: rangeOf_def)
  have 2: "rangeOf ?ks' ?m" by (auto simp add: rangeOf_def)
  have r1: "rangeOf ?ks (metrics ?a)" using 1 by simp
  have r2: "rangeOf ?ks' (metrics ?a)" using 2 by simp
  have sep: "\<forall>name v l d. metrics ?a name = Some (Labeled v l)
               \<longrightarrow> metrics ?a (baseNameOf name) \<noteq> Some (Direct d)"
    by (auto simp add: baseNameOf_def split: if_splits)
  have f1: "toFloat64 decimalEnv (VInt64 150) = Some 150"
    by (simp add: toFloat64_def decimalEnv_def)
  have f2: "toFloat64 decimalEnv (VString ''n/a'') = None"
    by (simp add: toFloat64_def)
  note t = encoders_determined_up_to_range_order
             [OF r1 r2, of decimalEnv "\<lambda>name. [''status'']"]
  note c4 = t[THEN conjunct2, THEN conjunct2, THEN conjunct2]
  note c5 = c4[THEN conjunct2]
  note c7 = c5[THEN conjunct2, THEN conjunct2]
  note c9 = c7[THEN conjunct2, THEN conjunct2]
  have 3: "mset (metricBlocks decimalEnv (\<lambda>name. [''status'']) ?ks ?a)
             = mset (metricBlocks decimalEnv (\<lambda>name. [''status'']) ?ks' ?a)"
    using c4[THEN conjunct1] .
  have 4: "sameSeries (handleMetricsJSON ?ks ?a ''users'') (handleMetricsJSON ?ks' ?a ''users'')"
    using c9[THEN mp, OF sep] by (rule spec)
  have "\<exists>pre. writeMetric decimalEnv [''status''] ''users_status_active''
                 (Labeled (VInt64 150) [''status'' \<mapsto> ''active''])
               = pre @ baseNameOf ''users_status_active''
                   @ (if [''status'' \<mapsto> ''active''] \<noteq> Map.empty
                      then ''{'' @ writeLabelPairs True [''status'' \<mapsto> ''active''] [''status''] @ ''}''
                      else [])
                   @ '' '' @ fmt_g decimalEnv 150 @ [CHR 0x0A]"
    using c7[THEN conjunct1, rule_format, OF f1] .
  then have 5: "\<exists>pre. writeMetric decimalEnv [''status''] ''users_status_active''
                 (Labeled (VInt64 150) [''status'' \<mapsto> ''active''])
               = pre @ ''users{status='' @ [CHR 0x22] @ ''active'' @ [CHR 0x22] @ ''} 150''
                   @ [CHR 0x0A]"
    by (simp add: baseNameOf_def decimalEnv_def showInt_def escapeLabelValue_def escapeByte_def
        lookupLabel_def)
  have 6: "writeMetric decimalEnv [''status''] ''up'' (Direct (VString ''n/a'')) = []"
    using c5[THEN conjunct1, rule_format, OF f2, THEN conjunct1] .
  have 7: "handleMetricsJSON ?ks ?a ''users''
             = Some (JGroup [(VInt64 150, [''status'' \<mapsto> ''active'']),
                             (VInt64 75, [''status'' \<mapsto> ''inactive''])])"
    by (simp add: handleMetricsJSON_def addToResponse_def baseNameOf_def)
  have 8: "handleMetricsJSON ?ks' ?a ''users''
             = Some (JGroup [(VInt64 75, [''status'' \<mapsto> ''inactive'']),
                             (VInt64 150, [''status'' \<mapsto> ''active''])])"
    by (simp add: handleMetricsJSON_def addToResponse_def baseNameOf_def)
  show ?thesis
    by (intro conjI) (rule 1 2 3 f1 5 f2 6 4 7 8)+
qed

end
